theory Spec2Isabelle
  imports Main "HOL-Library.Multiset"
begin

section \<open>Python strings, regular expressions and paths used by the item model\<close>

text \<open>
  \<open>str(n)\<close> for an \<open>int\<close>, as produced by the f-strings of \<open>classes.py\<close> and
  \<open>downloader.py\<close>: the decimal digits, with a leading minus sign for a negative number.
\<close>

definition digit_char :: "nat \<Rightarrow> char" where
  "digit_char d = char_of (48 + d)"

fun str_nat :: "nat \<Rightarrow> string" where
  "str_nat n = (if n < 10 then [digit_char n] else str_nat (n div 10) @ [digit_char (n mod 10)])"

declare str_nat.simps [simp del]

definition str_int :: "int \<Rightarrow> string" where
  "str_int i = (if i < 0 then CHR ''-'' # str_nat (nat (- i)) else str_nat (nat i))"

text \<open>\<open>s.startswith(p)\<close>.\<close>

fun startswith :: "string \<Rightarrow> string \<Rightarrow> bool" where
  "startswith s [] = True"
| "startswith [] (p # ps) = False"
| "startswith (c # cs) (p # ps) = (c = p \<and> startswith cs ps)"

text \<open>
  \<open>re.compile(lit).search(s)\<close> for a pattern without metacharacters: the index of the
  leftmost position of \<open>s\<close> where the literal occurs, \<open>None\<close> when there is none.
\<close>

fun re_search_literal :: "string \<Rightarrow> string \<Rightarrow> nat option" where
  "re_search_literal lit [] = (if lit = [] then Some 0 else None)"
| "re_search_literal lit (c # cs) =
     (if startswith (c # cs) lit then Some 0
      else map_option Suc (re_search_literal lit cs))"

text \<open>
  \<open>s.replace(old, new)\<close>: every non-overlapping occurrence of \<open>old\<close>, scanning from the
  left, is replaced; for an empty \<open>old\<close> Python puts \<open>new\<close> before every character and at
  the end.
\<close>

function str_replace :: "string \<Rightarrow> string \<Rightarrow> string \<Rightarrow> string" where
  "str_replace old new s =
     (if old = [] then new @ concat (map (\<lambda>c. c # new) s)
      else if s = [] then []
      else if startswith s old then new @ str_replace old new (drop (length old) s)
      else hd s # str_replace old new (tl s))"
  by pat_completeness auto
termination
  by (relation "measure (\<lambda>(old, new, s). length s)") auto

declare str_replace.simps [simp del]

text \<open>
  \<open>pathlib.Path\<close> on a POSIX system: a root (empty, one slash, or two slashes when the
  text starts with exactly two) and the components, where empty components and single
  dots are dropped when the text is parsed.
\<close>

fun split_slash :: "string \<Rightarrow> string list" where
  "split_slash [] = [[]]"
| "split_slash (c # cs) =
     (if c = CHR ''/'' then [] # split_slash cs
      else (case split_slash cs of [] \<Rightarrow> [[c]] | w # ws \<Rightarrow> (c # w) # ws))"

datatype path = Path (root: string) (parts: "string list")

definition root_of :: "string \<Rightarrow> string" where
  "root_of s =
     (if startswith s ''///'' then ''/''
      else if startswith s ''//'' then ''//''
      else if startswith s ''/'' then ''/''
      else [])"

definition parts_of :: "string \<Rightarrow> string list" where
  "parts_of s = filter (\<lambda>p. p \<noteq> [] \<and> p \<noteq> ''.'') (split_slash s)"

definition path_of_str :: "string \<Rightarrow> path" where
  "path_of_str s = Path (root_of s) (parts_of s)"

text \<open>\<open>p / s\<close>: an absolute right operand replaces the left one.\<close>

definition joinpath :: "path \<Rightarrow> string \<Rightarrow> path" where
  "joinpath p s =
     (if root_of s \<noteq> [] then path_of_str s else Path (root p) (parts p @ parts_of s))"

definition path_name :: "path \<Rightarrow> string" where
  "path_name p = (if parts p = [] then [] else last (parts p))"

text \<open>
  \<open>Path.suffix\<close>: the part of the name from its last dot, unless that dot is the first
  or the last character of the name (\<open>i = name.rfind('.')\<close>, \<open>0 < i < len(name) - 1\<close>).
\<close>

fun rfind_dot :: "string \<Rightarrow> nat option" where
  "rfind_dot [] = None"
| "rfind_dot (c # cs) =
     (case rfind_dot cs of
        Some i \<Rightarrow> Some (Suc i)
      | None \<Rightarrow> (if c = CHR ''.'' then Some 0 else None))"

definition suffix :: "path \<Rightarrow> string" where
  "suffix p =
     (let name = path_name p in
      case rfind_dot name of
        None \<Rightarrow> []
      | Some i \<Rightarrow> (if 0 < i \<and> i + 1 < length name then drop i name else []))"

section \<open>The item model (\<open>classes.py\<close>)\<close>

text \<open>
  The module \<open>consts\<close> is not part of the sources at hand; the constants the modelled
  code reads from it are the fields of this record.
\<close>

record consts_module =
  CARD_RESULTS_DIR :: string
  STILL_RESULTS_DIR :: string
  CARDS_LIST_URL_TEMPLATE :: string
  STILLS_LIST_URL_TEMPLATE :: string
  CARD_URL_TEMPLATE :: string
  STILL_URL_TEMPLATE :: string

record card =
  key :: int
  idol :: string
  rarity :: string
  attribute :: string
  unit :: string
  subunit :: string
  year :: string
  normal_url :: string
  idolized_url :: string

record still =
  key :: int
  url :: string

datatype item = CardItem card | StillItem still

definition card_is_double_sized :: "card \<Rightarrow> bool" where
  "card_is_double_sized c = (re_search_literal ''/2x/'' (normal_url c) \<noteq> None)"

definition card_get_urls :: "card \<Rightarrow> string list" where
  "card_get_urls c = [normal_url c, idolized_url c]"

definition card_set_url :: "card \<Rightarrow> nat \<Rightarrow> string \<Rightarrow> card" where
  "card_set_url c i u = (if i = 0 then c\<lparr>normal_url := u\<rparr> else c\<lparr>idolized_url := u\<rparr>)"

definition card_needs_update :: "card \<Rightarrow> bool" where
  "card_needs_update c = (\<not> card_is_double_sized c \<and> rarity c \<noteq> ''Rare'')"

definition card_get_paths :: "consts_module \<Rightarrow> card \<Rightarrow> path \<Rightarrow> path list" where
  "card_get_paths K c p =
     (let file_name = str_int (card.key c) @ ''_'' @ unit c @ ''_'' @ idol c;
          base_path = joinpath p (CARD_RESULTS_DIR K);
          normal_path = file_name @ ''_Normal'' @ suffix (path_of_str (normal_url c));
          idolized_path = str_replace ''Normal'' ''Idolized'' normal_path
      in [joinpath base_path normal_path, joinpath base_path idolized_path])"

definition still_is_double_sized :: "still \<Rightarrow> bool" where
  "still_is_double_sized s = (re_search_literal ''/2x/'' (url s) \<noteq> None)"

definition still_get_urls :: "still \<Rightarrow> string list" where
  "still_get_urls s = [url s]"

definition still_set_url :: "still \<Rightarrow> nat \<Rightarrow> string \<Rightarrow> still" where
  "still_set_url s i u = s\<lparr>url := u\<rparr>"

definition still_needs_update :: "still \<Rightarrow> bool" where
  "still_needs_update s = (\<not> still_is_double_sized s)"

definition still_get_paths :: "consts_module \<Rightarrow> still \<Rightarrow> path \<Rightarrow> path list" where
  "still_get_paths K s p =
     (let file_name = str_int (still.key s) @ ''_Still'';
          base_path = joinpath p (STILL_RESULTS_DIR K)
      in [joinpath base_path (file_name @ suffix (path_of_str (url s)))])"

text \<open>The methods of \<open>Item = Card | Still\<close>, dispatched on the class of the object.\<close>

fun get_folder :: "consts_module \<Rightarrow> item \<Rightarrow> string" where
  "get_folder K (CardItem c) = CARD_RESULTS_DIR K"
| "get_folder K (StillItem s) = STILL_RESULTS_DIR K"

fun item_key :: "item \<Rightarrow> int" where
  "item_key (CardItem c) = card.key c"
| "item_key (StillItem s) = still.key s"

fun is_double_sized :: "item \<Rightarrow> bool" where
  "is_double_sized (CardItem c) = card_is_double_sized c"
| "is_double_sized (StillItem s) = still_is_double_sized s"

fun get_urls :: "item \<Rightarrow> string list" where
  "get_urls (CardItem c) = card_get_urls c"
| "get_urls (StillItem s) = still_get_urls s"

fun set_url :: "item \<Rightarrow> nat \<Rightarrow> string \<Rightarrow> item" where
  "set_url (CardItem c) i u = CardItem (card_set_url c i u)"
| "set_url (StillItem s) i u = StillItem (still_set_url s i u)"

fun needs_update :: "item \<Rightarrow> bool" where
  "needs_update (CardItem c) = card_needs_update c"
| "needs_update (StillItem s) = still_needs_update s"

fun get_paths :: "consts_module \<Rightarrow> item \<Rightarrow> path \<Rightarrow> path list" where
  "get_paths K (CardItem c) p = card_get_paths K c p"
| "get_paths K (StillItem s) p = still_get_paths K s p"

section \<open>Exceptions\<close>

text \<open>
  The three exception classes of \<open>html_parser.py\<close>, Python's \<open>IndexError\<close> for a list
  index out of range, and \<open>OtherException msg\<close> for what the collaborators raise (a
  failed request of the HTTP client, an \<open>OSError\<close> of \<open>open\<close>), with \<open>msg\<close> the text
  that \<open>str(e)\<close> gives.
\<close>

datatype exn =
    ListParsingException
  | ItemParsingException
  | NoHTTPSessionException
  | IndexError
  | OtherException string

fun str_exn :: "exn \<Rightarrow> string" where
  "str_exn ListParsingException = []"
| "str_exn ItemParsingException = []"
| "str_exn NoHTTPSessionException = []"
| "str_exn IndexError = ''list index out of range''"
| "str_exn (OtherException msg) = msg"

section \<open>The parsed markup (\<open>bs4\<close>)\<close>

text \<open>
  A parsed document is a tree of tags and strings. An attribute value is a string, or
  a list of strings for a multi-valued attribute such as \<open>class\<close>. \<open>find_all\<close> and
  \<open>find\<close> search the descendants of a tag in document order; \<open>tag.get(key)\<close> is
  \<open>None\<close> when the attribute is missing.
\<close>

datatype attr_value = AttrStr string | AttrList "string list"

datatype node =
    Tag (tag_name: string) (attrs: "(string \<times> attr_value) list") (contents: "node list")
  | NavigableString string

fun descendants :: "node \<Rightarrow> node list" where
  "descendants (Tag n a cs) = concat (map (\<lambda>c. c # descendants c) cs)"
| "descendants (NavigableString s) = []"

fun is_tag :: "node \<Rightarrow> bool" where
  "is_tag (Tag n a cs) = True"
| "is_tag (NavigableString s) = False"

fun tag_get :: "node \<Rightarrow> string \<Rightarrow> attr_value option" where
  "tag_get (Tag n a cs) k = map_of a k"
| "tag_get (NavigableString s) k = None"

fun join_space :: "string list \<Rightarrow> string" where
  "join_space [] = []"
| "join_space [x] = x"
| "join_space (x # y # ys) = x @ '' '' @ join_space (y # ys)"

fun attr_matches :: "attr_value option \<Rightarrow> string \<Rightarrow> bool" where
  "attr_matches None s = False"
| "attr_matches (Some (AttrStr v)) s = (v = s)"
| "attr_matches (Some (AttrList vs)) s = (s \<in> set vs \<or> join_space vs = s)"

definition find_all_class :: "string \<Rightarrow> node \<Rightarrow> node list" where
  "find_all_class cls n =
     filter (\<lambda>d. is_tag d \<and> attr_matches (tag_get d ''class'') cls) (descendants n)"

definition find_all_name :: "string \<Rightarrow> node \<Rightarrow> node list" where
  "find_all_name nm n = filter (\<lambda>d. is_tag d \<and> tag_name d = nm) (descendants n)"

definition find_all_attr :: "string \<Rightarrow> string \<Rightarrow> node \<Rightarrow> node list" where
  "find_all_attr k v n =
     filter (\<lambda>d. is_tag d \<and> attr_matches (tag_get d k) v) (descendants n)"

definition first_of :: "'a list \<Rightarrow> 'a option" where
  "first_of xs = (case xs of [] \<Rightarrow> None | x # _ \<Rightarrow> Some x)"

definition find_class :: "string \<Rightarrow> node \<Rightarrow> node option" where
  "find_class cls n = first_of (find_all_class cls n)"

definition find_name :: "string \<Rightarrow> node \<Rightarrow> node option" where
  "find_name nm n = first_of (find_all_name nm n)"

definition find_attr :: "string \<Rightarrow> string \<Rightarrow> node \<Rightarrow> node option" where
  "find_attr k v n = first_of (find_all_attr k v n)"

fun node_string :: "node \<Rightarrow> string" where
  "node_string (Tag n a cs) = []"
| "node_string (NavigableString s) = s"

definition get_text :: "node \<Rightarrow> string" where
  "get_text n = concat (map node_string (descendants n))"

text \<open>\<open>s.partition(sep)[0]\<close> and \<open>s.strip()\<close> on code points below 256.\<close>

fun partition_head :: "string \<Rightarrow> string \<Rightarrow> string" where
  "partition_head sep [] = []"
| "partition_head sep (c # cs) =
     (if startswith (c # cs) sep then [] else c # partition_head sep cs)"

definition isspace :: "char \<Rightarrow> bool" where
  "isspace c =
     (let n = (of_char c :: nat)
      in (9 \<le> n \<and> n \<le> 13) \<or> (28 \<le> n \<and> n \<le> 32) \<or> n = 133 \<or> n = 160)"

definition strip :: "string \<Rightarrow> string" where
  "strip s = rev (dropWhile isspace (rev (dropWhile isspace s)))"

section \<open>The regular expressions and \<open>int\<close> of \<open>html_parser.py\<close>\<close>

definition isdigit :: "char \<Rightarrow> bool" where
  "isdigit c = (48 \<le> (of_char c :: nat) \<and> (of_char c :: nat) \<le> 57)"

text \<open>
  \<open>re.compile(r"/([0-9]+)/").search(s)\<close>: the leftmost slash that is followed by one or
  more digits and a slash; the result is group 1, the digits. The digits are matched
  greedily, and no shorter run can match, since the character after it is a digit.
\<close>

fun re_search_key :: "string \<Rightarrow> string option" where
  "re_search_key [] = None"
| "re_search_key (c # cs) =
     (if c = CHR ''/'' \<and> takeWhile isdigit cs \<noteq> [] \<and> startswith (dropWhile isdigit cs) ''/''
      then Some (takeWhile isdigit cs)
      else re_search_key cs)"

text \<open>\<open>re.compile(r"=([0-9]+)").search(s)\<close>: group 1 of the leftmost match.\<close>

fun re_search_num :: "string \<Rightarrow> string option" where
  "re_search_num [] = None"
| "re_search_num (c # cs) =
     (if c = CHR ''='' \<and> takeWhile isdigit cs \<noteq> []
      then Some (takeWhile isdigit cs)
      else re_search_num cs)"

text \<open>
  \<open>int(group)\<close> for a string of ASCII digits (of a length within the interpreter's limit
  for the conversion).
\<close>

definition py_int :: "string \<Rightarrow> int" where
  "py_int ds = foldl (\<lambda>a c. 10 * a + (int (of_char c) - 48)) 0 ds"

text \<open>\<open>sorted(nums, reverse=True)\<close> on integers.\<close>

definition sorted_reverse :: "int list \<Rightarrow> int list" where
  "sorted_reverse nums = rev (sort nums)"

section \<open>The parsers (\<open>html_parser.py\<close>)\<close>

text \<open>
  A session answers a URL with the parsed document, \<open>BeautifulSoup(text, "lxml")\<close> of
  the text of the response, or with the exception of the request. \<open>get_html\<close> raises
  \<open>NoHTTPSessionException\<close> when no session is set.
\<close>

type_synonym session = "string \<Rightarrow> exn + node"

datatype img_type = CardType | StillType

fun list_url_template :: "consts_module \<Rightarrow> img_type \<Rightarrow> string" where
  "list_url_template K CardType = CARDS_LIST_URL_TEMPLATE K"
| "list_url_template K StillType = STILLS_LIST_URL_TEMPLATE K"

definition soup_page :: "session option \<Rightarrow> string \<Rightarrow> exn + node" where
  "soup_page sess u = (case sess of None \<Rightarrow> Inl NoHTTPSessionException | Some get \<Rightarrow> get u)"

subsection \<open>\<open>ListParser\<close>\<close>

definition list_get_url :: "consts_module \<Rightarrow> img_type \<Rightarrow> int \<Rightarrow> string" where
  "list_get_url K ty num = list_url_template K ty @ str_int num"

text \<open>The loop of \<open>get_page\<close> over the \<open>top-item\<close> tags, appending to \<open>nums\<close>.\<close>

fun get_page_loop :: "node list \<Rightarrow> int list \<Rightarrow> int list" where
  "get_page_loop [] nums = nums"
| "get_page_loop (item # items) nums =
     (case find_name ''a'' item of
        None \<Rightarrow> get_page_loop items nums
      | Some found \<Rightarrow>
          (case tag_get found ''href'' of
             Some (AttrStr string) \<Rightarrow>
               (case re_search_key string of
                  None \<Rightarrow> get_page_loop items nums
                | Some grp \<Rightarrow> get_page_loop items (nums @ [py_int grp]))
           | _ \<Rightarrow> get_page_loop items nums))"

definition get_page :: "consts_module \<Rightarrow> img_type \<Rightarrow> session option \<Rightarrow> int \<Rightarrow> exn + int list" where
  "get_page K ty sess num =
     (case soup_page sess (list_get_url K ty num) of
        Inl e \<Rightarrow> Inl e
      | Inr page \<Rightarrow>
          (let nums = get_page_loop (find_all_class ''top-item'' page) []
           in if nums \<noteq> [] then Inr (sorted_reverse nums) else Inl ListParsingException))"

definition get_num_pages :: "consts_module \<Rightarrow> img_type \<Rightarrow> session option \<Rightarrow> exn + int" where
  "get_num_pages K ty sess =
     (case soup_page sess (list_get_url K ty 1) of
        Inl e \<Rightarrow> Inl e
      | Inr page \<Rightarrow>
          (case find_class ''pagination'' page of
             None \<Rightarrow> Inl ListParsingException
           | Some item \<Rightarrow>
               (let links = find_all_name ''a'' item
                in if links = [] then Inl ListParsingException
                   else if length links < 2 then Inl IndexError
                   else (case tag_get (links ! (length links - 2)) ''href'' of
                           Some (AttrStr string) \<Rightarrow>
                             (case re_search_num string of
                                None \<Rightarrow> Inl ListParsingException
                              | Some grp \<Rightarrow> Inr (py_int grp))
                         | _ \<Rightarrow> Inl ListParsingException))))"

subsection \<open>\<open>CardParser\<close>\<close>

text \<open>
  \<open>create_item\<close> reads \<open>self.soup\<close>, which \<open>get_item\<close> has just set to the page; the
  functions below take it as an argument (\<open>None\<close> before the first \<open>get_item\<close>).
\<close>

definition card_get_url :: "consts_module \<Rightarrow> int \<Rightarrow> string" where
  "card_get_url K num = CARD_URL_TEMPLATE K @ str_int num"

definition get_item_image_urls :: "node option \<Rightarrow> exn + string \<times> string" where
  "get_item_image_urls soup =
     (case soup of
        None \<Rightarrow> Inl ItemParsingException
      | Some s \<Rightarrow>
          (case find_class ''top-item'' s of
             None \<Rightarrow> Inl ItemParsingException
           | Some top_item \<Rightarrow>
               (let links = find_all_name ''a'' top_item
                in if links = [] then Inl ItemParsingException
                   else (case tag_get (links ! 0) ''href'' of
                           Some (AttrStr first) \<Rightarrow>
                             (if length links < 2 then Inl IndexError
                              else (case tag_get (links ! 1) ''href'' of
                                      Some (AttrStr second) \<Rightarrow> Inr (first, second)
                                    | _ \<Rightarrow> Inl ItemParsingException))
                         | _ \<Rightarrow> Inl ItemParsingException))))"

definition get_data_field :: "node option \<Rightarrow> string \<Rightarrow> exn + node" where
  "get_data_field soup field =
     (case soup of
        None \<Rightarrow> Inl ItemParsingException
      | Some s \<Rightarrow>
          (case find_attr ''data-field'' field s of
             None \<Rightarrow> Inl ItemParsingException
           | Some data \<Rightarrow>
               (let tds = find_all_name ''td'' data
                in if length tds < 2 then Inl IndexError else Inr (tds ! 1))))"

definition get_item_info :: "node option \<Rightarrow> string \<Rightarrow> exn + string" where
  "get_item_info soup info =
     (let plain = (case get_data_field soup info of
                     Inl e \<Rightarrow> Inl e
                   | Inr data \<Rightarrow> Inr (strip (get_text data)))
      in if info = ''idol'' then
           (case get_data_field soup ''idol'' of
              Inl e \<Rightarrow> Inl e
            | Inr data \<Rightarrow>
                (case find_name ''span'' data of
                   Some found_data \<Rightarrow> Inr (strip (partition_head ''Open idol'' (get_text found_data)))
                 | None \<Rightarrow> plain))
         else plain)"

definition create_item_card :: "node option \<Rightarrow> int \<Rightarrow> exn + int \<times> card" where
  "create_item_card soup num =
     (case get_item_image_urls soup of Inl e \<Rightarrow> Inl e | Inr urls \<Rightarrow>
     (case get_item_info soup ''idol'' of Inl e \<Rightarrow> Inl e | Inr idol' \<Rightarrow>
     (case get_item_info soup ''rarity'' of Inl e \<Rightarrow> Inl e | Inr rarity' \<Rightarrow>
     (case get_item_info soup ''attribute'' of Inl e \<Rightarrow> Inl e | Inr attr \<Rightarrow>
     (case get_item_info soup ''i_unit'' of Inl e \<Rightarrow> Inl e | Inr unit' \<Rightarrow>
     (case get_item_info soup ''i_subunit'' of Inl e \<Rightarrow> Inl e | Inr sub \<Rightarrow>
     (case get_item_info soup ''i_year'' of Inl e \<Rightarrow> Inl e | Inr year' \<Rightarrow>
        Inr (num, \<lparr>card.key = num, idol = idol', rarity = rarity', attribute = attr,
                   unit = unit', subunit = sub, year = year',
                   normal_url = fst urls, idolized_url = snd urls\<rparr>))))))))"

definition card_get_item :: "consts_module \<Rightarrow> session option \<Rightarrow> int \<Rightarrow> exn + int \<times> card" where
  "card_get_item K sess num =
     (case soup_page sess (card_get_url K num) of
        Inl e \<Rightarrow> Inl e
      | Inr page \<Rightarrow> create_item_card (Some page) num)"

subsection \<open>\<open>StillParser\<close>\<close>

text \<open>
  \<open>get_item_image_url\<close> returns \<open>links[0].get("href")\<close> as it is, and the dataclass
  does not check its annotation \<open>url: str\<close> when the object is built: the \<open>url\<close> of the
  object that \<open>create_item\<close> returns is whatever \<open>get\<close> gave, \<open>None\<close> for a missing
  attribute. \<open>still_of_parsed\<close> is the \<open>Still\<close> of the item model when the value is a
  string.
\<close>

record parsed_still =
  parsed_key :: int
  parsed_url :: "attr_value option"

definition still_of_parsed :: "parsed_still \<Rightarrow> still option" where
  "still_of_parsed ps =
     (case parsed_url ps of
        Some (AttrStr u) \<Rightarrow> Some \<lparr>still.key = parsed_key ps, url = u\<rparr>
      | _ \<Rightarrow> None)"

definition still_get_url :: "consts_module \<Rightarrow> int \<Rightarrow> string" where
  "still_get_url K num = STILL_URL_TEMPLATE K @ str_int num"

definition get_item_image_url :: "node option \<Rightarrow> exn + attr_value option" where
  "get_item_image_url soup =
     (case soup of
        None \<Rightarrow> Inl ItemParsingException
      | Some s \<Rightarrow>
          (case find_class ''top-item'' s of
             None \<Rightarrow> Inl ItemParsingException
           | Some top_item \<Rightarrow>
               (let links = find_all_name ''a'' top_item
                in if links = [] then Inl ItemParsingException
                   else Inr (tag_get (links ! 0) ''href''))))"

definition create_item_still :: "node option \<Rightarrow> int \<Rightarrow> exn + int \<times> parsed_still" where
  "create_item_still soup num =
     (case get_item_image_url soup of
        Inl e \<Rightarrow> Inl e
      | Inr link \<Rightarrow> Inr (num, \<lparr>parsed_key = num, parsed_url = link\<rparr>))"

definition still_get_item :: "consts_module \<Rightarrow> session option \<Rightarrow> int \<Rightarrow> exn + int \<times> parsed_still" where
  "still_get_item K sess num =
     (case soup_page sess (still_get_url K num) of
        Inl e \<Rightarrow> Inl e
      | Inr page \<Rightarrow> create_item_still (Some page) num)"

section \<open>The downloader (\<open>downloader.py\<close>)\<close>

text \<open>
  The state of a \<open>Downloader\<close> and of what it acts on: its attributes \<open>path\<close>, \<open>objs\<close>
  (a dict, in insertion order) and \<open>updateables\<close>, the files on disk with their
  contents, the lines printed, and the catalogue last dumped by \<open>update_json_file\<close>.
  A method that can raise returns \<open>Inl (e, s)\<close> with the state \<open>s\<close> reached when the
  exception \<open>e\<close> leaves it, or \<open>Inr\<close> of the state it returns in.

  \<open>asyncio.gather\<close> runs its tasks interleaved; here they run one after another, in the
  order in which they are passed.
\<close>

record downloader =
  path :: path
  objs :: "(int \<times> item) list"
  updateables :: "int list"
  files :: "path \<Rightarrow> string option"
  stdout :: "string list"
  json_file :: "(int \<times> item) list option"

text \<open>
  What the download phase reaches outside the program: \<open>http_get u\<close> is the body read
  from the response of \<open>session.get(u)\<close>, or the exception raised; \<open>open_wb p\<close> is the
  exception raised by \<open>open(p, 'wb')\<close>, \<open>None\<close> when the file can be opened.
\<close>

record io =
  http_get :: "string \<Rightarrow> exn + string"
  open_wb :: "path \<Rightarrow> exn option"

definition print :: "string \<Rightarrow> downloader \<Rightarrow> downloader" where
  "print line s = s\<lparr>stdout := stdout s @ [line]\<rparr>"

definition write_to_file :: "io \<Rightarrow> path \<Rightarrow> string \<Rightarrow> downloader \<Rightarrow> exn + downloader" where
  "write_to_file w dest u s =
     (case http_get w (''https:'' @ u) of
        Inl e \<Rightarrow> Inl e
      | Inr response_data \<Rightarrow>
          (case open_wb w dest of
             Some e \<Rightarrow> Inl e
           | None \<Rightarrow> Inr (s\<lparr>files := (files s)(dest \<mapsto> response_data)\<rparr>)))"

definition downloaded_message :: "item \<Rightarrow> nat \<Rightarrow> string" where
  "downloaded_message it i =
     ''Downloaded item '' @ str_int (item_key it)
       @ (case it of
            CardItem c \<Rightarrow> '', '' @ (if i = 1 then ''idolized'' else ''normal'')
          | StillItem s \<Rightarrow> [])
       @ ''.''"

definition create_image_file ::
    "io \<Rightarrow> path \<Rightarrow> item \<Rightarrow> nat \<Rightarrow> downloader \<Rightarrow> exn \<times> downloader + downloader" where
  "create_image_file w p it i s =
     (if files s p = None \<or> item_key it \<in> set (updateables s) then
        (if i < length (get_urls it) then
           (case write_to_file w p (get_urls it ! i) s of
              Inl e \<Rightarrow> Inl (e, s)
            | Inr s' \<Rightarrow> Inr (print (downloaded_message it i) s'))
         else Inl (IndexError, s))
      else Inr s)"

text \<open>\<open>for i, path in enumerate(paths)\<close>, with \<open>i\<close> the index of the head of the list.\<close>

fun download_images_from ::
    "io \<Rightarrow> nat \<Rightarrow> path list \<Rightarrow> item \<Rightarrow> downloader \<Rightarrow> exn \<times> downloader + downloader" where
  "download_images_from w i [] it s = Inr s"
| "download_images_from w i (p # ps) it s =
     (case create_image_file w p it i s of
        Inl err \<Rightarrow> Inl err
      | Inr s' \<Rightarrow> download_images_from w (Suc i) ps it s')"

definition download_images ::
    "io \<Rightarrow> path list \<Rightarrow> item \<Rightarrow> downloader \<Rightarrow> exn \<times> downloader + downloader" where
  "download_images w paths it s = download_images_from w 0 paths it s"

definition failure_message :: "item \<Rightarrow> exn \<Rightarrow> string" where
  "failure_message it e =
     ''Couldn't download card '' @ str_int (item_key it) @ '': '' @ str_exn e @ ''.''"

definition get_images :: "consts_module \<Rightarrow> io \<Rightarrow> item \<Rightarrow> downloader \<Rightarrow> downloader" where
  "get_images K w it s =
     (let paths = get_paths K it (path s)
      in case download_images w paths it s of
           Inl (e, s') \<Rightarrow> print (failure_message it e) s'
         | Inr s' \<Rightarrow> s')"

fun download_tasks :: "consts_module \<Rightarrow> io \<Rightarrow> (int \<times> item) list \<Rightarrow> downloader \<Rightarrow> downloader" where
  "download_tasks K w [] s = s"
| "download_tasks K w ((k, it) # rest) s = download_tasks K w rest (get_images K w it s)"

definition download :: "consts_module \<Rightarrow> io \<Rightarrow> downloader \<Rightarrow> downloader" where
  "download K w s = download_tasks K w (objs s) s"

subsection \<open>Reconciliation\<close>

text \<open>
  \<open>item_parser.get_item\<close>, with the session that the caller has just set, is a function
  from the key to the pair it returns or the exception it raises. \<open>update_if_needed\<close>
  changes the item it is given, an object of \<open>objs\<close>, and \<open>updateables\<close>: it takes and
  returns both.
\<close>

type_synonym item_parser = "int \<Rightarrow> exn + int \<times> item"

fun set_urls_loop :: "item \<Rightarrow> item \<Rightarrow> nat list \<Rightarrow> exn \<times> item + item" where
  "set_urls_loop it updated_item [] = Inr it"
| "set_urls_loop it updated_item (i # rest) =
     (if i < length (get_urls updated_item)
      then set_urls_loop (set_url it i (get_urls updated_item ! i)) updated_item rest
      else Inl (IndexError, it))"

definition update_if_needed ::
    "item_parser \<Rightarrow> item \<Rightarrow> int list \<Rightarrow> exn \<times> item \<times> int list + item \<times> int list" where
  "update_if_needed get_item it upd =
     (if needs_update it then
        (case get_item (item_key it) of
           Inl e \<Rightarrow> Inl (e, it, upd)
         | Inr (n, updated_item) \<Rightarrow>
             (let upd' = (if get_urls it ! 0 \<noteq> get_urls updated_item ! 0
                          then upd @ [item_key it] else upd)
              in case set_urls_loop it updated_item [0 ..< length (get_urls it)] of
                   Inl (e, it') \<Rightarrow> Inl (e, it', upd')
                 | Inr it' \<Rightarrow> Inr (it', upd')))
      else Inr (it, upd))"

text \<open>The loop of \<open>update\<close> over \<open>self.objs.items()\<close>; the items are changed in place.\<close>

fun update_loop ::
    "item_parser \<Rightarrow> (int \<times> item) list \<Rightarrow> int list
      \<Rightarrow> exn \<times> (int \<times> item) list \<times> int list + (int \<times> item) list \<times> int list" where
  "update_loop get_item [] upd = Inr ([], upd)"
| "update_loop get_item ((k, it) # rest) upd =
     (case update_if_needed get_item it upd of
        Inl (e, it', upd') \<Rightarrow> Inl (e, (k, it') # rest, upd')
      | Inr (it', upd') \<Rightarrow>
          (case update_loop get_item rest upd' of
             Inl (e, rest', upd'') \<Rightarrow> Inl (e, (k, it') # rest', upd'')
           | Inr (rest', upd'') \<Rightarrow> Inr ((k, it') # rest', upd'')))"

subsection \<open>Discovery and the whole update\<close>

text \<open>\<open>self.objs[n] = obj\<close>: a key already present keeps its place.\<close>

fun dict_set :: "(int \<times> item) list \<Rightarrow> int \<Rightarrow> item \<Rightarrow> (int \<times> item) list" where
  "dict_set [] n obj = [(n, obj)]"
| "dict_set ((k, v) # rest) n obj =
     (if k = n then (k, obj) # rest else (k, v) # dict_set rest n obj)"

definition add_item_to_object_list ::
    "item_parser \<Rightarrow> int \<Rightarrow> downloader \<Rightarrow> exn \<times> downloader + downloader" where
  "add_item_to_object_list get_item k s =
     (case get_item k of
        Inl e \<Rightarrow> Inl (e, s)
      | Inr (n, obj) \<Rightarrow>
          Inr (print (''Getting item '' @ str_int n @ ''.'') (s\<lparr>objs := dict_set (objs s) n obj\<rparr>)))"

fun gather_items ::
    "item_parser \<Rightarrow> int list \<Rightarrow> downloader \<Rightarrow> exn \<times> downloader + downloader" where
  "gather_items get_item [] s = Inr s"
| "gather_items get_item (k # ks) s =
     (case add_item_to_object_list get_item k s of
        Inl err \<Rightarrow> Inl err
      | Inr s' \<Rightarrow> gather_items get_item ks s')"

fun gather_pages :: "(int \<Rightarrow> exn + int list) \<Rightarrow> int list \<Rightarrow> exn + int list list" where
  "gather_pages get_page' [] = Inr []"
| "gather_pages get_page' (i # rest) =
     (case get_page' i of
        Inl e \<Rightarrow> Inl e
      | Inr page \<Rightarrow>
          (case gather_pages get_page' rest of
             Inl e \<Rightarrow> Inl e
           | Inr pages \<Rightarrow> Inr (page # pages)))"

fun pages_loop ::
    "item_parser \<Rightarrow> int list list \<Rightarrow> downloader \<Rightarrow> exn \<times> downloader + downloader" where
  "pages_loop get_item [] s = Inr s"
| "pages_loop get_item (page # pages) s =
     (case gather_items get_item (filter (\<lambda>k. k \<notin> fst ` set (objs s)) page) s of
        Inl err \<Rightarrow> Inl err
      | Inr s' \<Rightarrow> pages_loop get_item pages s')"

text \<open>
  The list parser, with its session set, is the pair of what \<open>get_num_pages\<close> and
  \<open>get_page\<close> answer.
\<close>

record list_parser =
  lp_get_num_pages :: "exn + int"
  lp_get_page :: "int \<Rightarrow> exn + int list"

definition get_cards_from_parser ::
    "list_parser \<Rightarrow> item_parser \<Rightarrow> downloader \<Rightarrow> exn \<times> downloader + downloader" where
  "get_cards_from_parser lp get_item s =
     (case lp_get_num_pages lp of
        Inl e \<Rightarrow> Inl (e, s)
      | Inr n \<Rightarrow>
          (case gather_pages (lp_get_page lp) [1 .. n] of
             Inl e \<Rightarrow> Inl (e, s)
           | Inr pages \<Rightarrow> pages_loop get_item pages s))"

definition update_json_file :: "downloader \<Rightarrow> downloader" where
  "update_json_file s =
     (let sorted_objs = rev (sort_key fst (objs s))
      in s\<lparr>objs := sorted_objs, json_file := Some sorted_objs\<rparr>)"

text \<open>
  \<open>update\<close>. The site may answer differently, or fail, when an item's page is requested
  again for the resolution check: \<open>get_item\<close> is what the item parser answers during
  discovery, \<open>get_item_again\<close> what it answers during the check.
\<close>

definition update ::
    "list_parser \<Rightarrow> item_parser \<Rightarrow> item_parser \<Rightarrow> downloader \<Rightarrow> exn \<times> downloader + downloader" where
  "update lp get_item get_item_again s =
     (case get_cards_from_parser lp get_item (print ''Searching for new or missing items...'' s) of
        Inl err \<Rightarrow> Inl err
      | Inr s1 \<Rightarrow>
          (let s2 = print ''Checking if items can be updated to better resolution...'' s1
           in case update_loop get_item_again (objs s2) (updateables s2) of
                Inl (e, objs', upd') \<Rightarrow> Inl (e, s2\<lparr>objs := objs', updateables := upd'\<rparr>)
              | Inr (objs', upd') \<Rightarrow>
                  Inr (print ''Updated items database.''
                        (update_json_file (s2\<lparr>objs := objs', updateables := upd'\<rparr>)))))"

section \<open>The specification's wording, for comparison with the code\<close>

text \<open>
  The specification's \<open>needsResolutionCheck\<close> of a card, as it words it: true unless the
  card is high-res and its rarity differs from the top rarity tier \<open>top_tier\<close>.
\<close>

definition spec_card_needsResolutionCheck :: "string \<Rightarrow> card \<Rightarrow> bool" where
  "spec_card_needsResolutionCheck top_tier c = (\<not> (card_is_double_sized c \<and> rarity c \<noteq> top_tier))"

section \<open>Reading a result\<close>

text \<open>The state that a method leaves, whether it returned or raised.\<close>

fun state_of :: "exn \<times> 's + 's \<Rightarrow> 's" where
  "state_of (Inl (e, s)) = s"
| "state_of (Inr s) = s"


section \<open>What a listing page advertises\<close>

text \<open>
  A link bears an identifier when a run of one or more digits stands between two
  slashes somewhere in it. The key that an item container advertises is the number of
  the first such run in the link of its first anchor; the keys advertised on a page are
  those of its \<open>top-item\<close> containers, in document order.
\<close>

definition has_key_link :: "string \<Rightarrow> bool" where
  "has_key_link href =
     (\<exists>pre ds post. href = pre @ ''/'' @ ds @ ''/'' @ post \<and> ds \<noteq> [] \<and> (\<forall>c \<in> set ds. isdigit c))"

definition advertised_key :: "node \<Rightarrow> int option" where
  "advertised_key item =
     (case find_name ''a'' item of
        None \<Rightarrow> None
      | Some found \<Rightarrow>
          (case tag_get found ''href'' of
             Some (AttrStr href) \<Rightarrow> map_option py_int (re_search_key href)
           | _ \<Rightarrow> None))"

definition advertised_keys :: "node \<Rightarrow> int list" where
  "advertised_keys page = List.map_filter advertised_key (find_all_class ''top-item'' page)"

section \<open>Concrete items\<close>

text \<open>A card of rarity \<open>Rare\<close> whose normal URL has no \<open>/2x/\<close>.\<close>

definition low_res_rare_card :: card where
  "low_res_rare_card = \<lparr>card.key = 12, idol = ''Honoka'', rarity = ''Rare'',
        attribute = ''Smile'', unit = ''Muse'', subunit = ''Printemps'', year = ''Second'',
        normal_url = ''//i.idol.st/u/card/a.png'', idolized_url = ''//i.idol.st/u/card/b.png''\<rparr>"


text \<open>
  Two cards that differ in the extension of the normal URL only, one whose idol has a
  slash, and one that differs from the first in rarity, attribute, subunit, year, the
  idolized URL and the directories of the normal URL.
\<close>

definition consts_example :: consts_module where
  "consts_example = \<lparr>CARD_RESULTS_DIR = ''All'', STILL_RESULTS_DIR = ''Stills'',
     CARDS_LIST_URL_TEMPLATE = ''https://idol.st/ajax/allstars/cards/?page='',
     STILLS_LIST_URL_TEMPLATE = ''https://idol.st/ajax/allstars/stills/?page='',
     CARD_URL_TEMPLATE = ''https://idol.st/ajax/allstars/card/'',
     STILL_URL_TEMPLATE = ''https://idol.st/ajax/allstars/still/''\<rparr>"

definition card_png :: card where
  "card_png = \<lparr>card.key = 12, idol = ''Honoka'', rarity = ''UR'',
        attribute = ''Smile'', unit = ''Muse'', subunit = ''Printemps'', year = ''Second'',
        normal_url = ''//i.idol.st/u/card/a.png'', idolized_url = ''//i.idol.st/u/card/b.png''\<rparr>"

definition card_jpg :: card where
  "card_jpg = card_png\<lparr>normal_url := ''//i.idol.st/u/card/a.jpg''\<rparr>"

definition card_slash :: card where
  "card_slash = card_png\<lparr>idol := ''A/B''\<rparr>"

definition card_png_other :: card where
  "card_png_other = \<lparr>card.key = 12, idol = ''Honoka'', rarity = ''SR'',
        attribute = ''Pure'', unit = ''Muse'', subunit = ''None'', year = ''Third'',
        normal_url = ''//i.idol.st/u/card/2x/c.png'', idolized_url = ''//i.idol.st/u/card/d.webp''\<rparr>"

text \<open>
  A high-res still, and an item parser that answers every key with a low-res still; a
  low-res card of rarity \<open>UR\<close> (\<open>card_png\<close>), and an item parser that answers with
  the same card at double size.
\<close>

definition still_2x :: still where
  "still_2x = \<lparr>still.key = 7, url = ''//i.idol.st/u/still/2x/7Still.png''\<rparr>"

definition low_res_parser :: item_parser where
  "low_res_parser k = Inr (k, StillItem \<lparr>still.key = k, url = ''//i.idol.st/u/still/low.png''\<rparr>)"

definition card_2x :: card where
  "card_2x = card_png\<lparr>normal_url := ''//i.idol.st/u/card/2x/a.png'',
                       idolized_url := ''//i.idol.st/u/card/2x/b.png''\<rparr>"

definition card_2x_parser :: item_parser where
  "card_2x_parser k = Inr (k, CardItem (card_2x\<lparr>card.key := k\<rparr>))"

text \<open>
  A run of \<open>update\<close> from a new \<open>Downloader\<close>: one listing page with the keys 2 and 1,
  both parsed as low-res stills during discovery; when the pages are requested again
  for the resolution check, the request for key 2 fails and key 1 is published at
  double size.
\<close>

definition new_downloader :: downloader where
  "new_downloader = \<lparr>path = path_of_str ''out'', objs = [], updateables = [],
     files = (\<lambda>p. None), stdout = [], json_file = None\<rparr>"

definition one_page_list_parser :: list_parser where
  "one_page_list_parser = \<lparr>lp_get_num_pages = Inr 1,
     lp_get_page = (\<lambda>i. if i = 1 then Inr [2, 1] else Inl ListParsingException)\<rparr>"

definition flaky_parser :: item_parser where
  "flaky_parser k =
     (if k = 2 then Inl (OtherException ''timeout'')
      else Inr (k, StillItem \<lparr>still.key = k, url = ''//i.idol.st/u/still/2x/new.png''\<rparr>))"

text \<open>
  A catalogue of a still and a card with no file on disk yet, and the same with the
  still's key pending; a site that serves every asset, one that serves none, one whose
  request for the card's normal asset times out, and one whose request for the still's
  asset times out.
\<close>

definition still_low :: still where
  "still_low = \<lparr>still.key = 2, url = ''//i.idol.st/u/still/low.png''\<rparr>"

definition catalogued :: downloader where
  "catalogued = new_downloader\<lparr>objs := [(2, StillItem still_low), (12, CardItem card_png)]\<rparr>"





definition timeout_io :: io where
  "timeout_io = \<lparr>http_get = (\<lambda>u. if u = ''https://i.idol.st/u/still/low.png''
                                  then Inl (OtherException ''timeout'')
                                  else Inr (''image at '' @ u)),
     open_wb = (\<lambda>p. None)\<rparr>"

text \<open>
  A listing page with three item containers, the second without a link that bears a
  key, and a session that serves it as page 1 of the stills; a detail page whose first
  anchor has no \<open>href\<close>.
\<close>

definition listing_page :: node where
  "listing_page =
     Tag ''[document]'' []
       [Tag ''div'' [(''class'', AttrList [''top-item''])]
          [Tag ''a'' [(''href'', AttrStr ''/allstars/still/17/Summer/'')] []],
        Tag ''div'' [(''class'', AttrList [''top-item''])]
          [Tag ''a'' [(''href'', AttrStr ''/about/'')] []],
        Tag ''div'' [(''class'', AttrList [''top-item'', ''new''])]
          [Tag ''span'' [] [NavigableString ''New''],
           Tag ''a'' [(''href'', AttrStr ''/allstars/still/204/Winter/'')] []]]"

definition listing_session :: session where
  "listing_session u =
     (if u = ''https://idol.st/ajax/allstars/stills/?page=1'' then Inr listing_page
      else Inl (OtherException ''404''))"

definition detail_page_no_href :: node where
  "detail_page_no_href =
     Tag ''[document]'' []
       [Tag ''div'' [(''class'', AttrList [''top-item''])]
          [Tag ''a'' [(''name'', AttrStr ''art'')] [],
           Tag ''a'' [(''href'', AttrStr ''//i.idol.st/u/still/2x/17Still.png'')] []]]"
section \<open>Strings\<close>

lemma startswith_iff: "startswith s p \<longleftrightarrow> (\<exists>r. s = p @ r)"
  by (induction s p rule: startswith.induct) auto

lemma re_search_literal_iff:
  "re_search_literal lit s \<noteq> None \<longleftrightarrow> (\<exists>pre post. s = pre @ lit @ post)"
proof (induction s)
  case Nil
  then show ?case by auto
next
  case (Cons c cs)
  show ?case
  proof
    assume "re_search_literal lit (c # cs) \<noteq> None"
    then consider "startswith (c # cs) lit" | "re_search_literal lit cs \<noteq> None"
      by (auto split: if_splits)
    then show "\<exists>pre post. c # cs = pre @ lit @ post"
    proof cases
      case 1
      then obtain r where "c # cs = lit @ r" by (auto simp: startswith_iff)
      then have "c # cs = [] @ lit @ r" by simp
      then show ?thesis by blast
    next
      case 2
      with Cons obtain pre post where "cs = pre @ lit @ post" by blast
      then have "c # cs = (c # pre) @ lit @ post" by simp
      then show ?thesis by blast
    qed
  next
    assume "\<exists>pre post. c # cs = pre @ lit @ post"
    then obtain pre post where e: "c # cs = pre @ lit @ post" by blast
    show "re_search_literal lit (c # cs) \<noteq> None"
    proof (cases pre)
      case Nil
      with e have "startswith (c # cs) lit" by (auto simp: startswith_iff)
      then show ?thesis by simp
    next
      case (Cons a pre')
      with e have "cs = pre' @ lit @ post" by simp
      with Cons.IH have "re_search_literal lit cs \<noteq> None" by blast
      then show ?thesis by auto
    qed
  qed
qed

section \<open>The item model\<close>

text \<open>
  C9: for every item, card or still, \<open>is_double_sized\<close> is true if and only if \<open>/2x/\<close>
  occurs somewhere in the item's primary URL, the URL at slot 0.
\<close>

theorem is_double_sized_iff_marker:
  "is_double_sized it \<longleftrightarrow> (\<exists>pre post. get_urls it ! 0 = pre @ ''/2x/'' @ post)"
proof (cases it)
  case (CardItem c)
  then show ?thesis
    using re_search_literal_iff [of "''/2x/''" "normal_url c"]
    by (simp add: card_is_double_sized_def card_get_urls_def)
next
  case (StillItem s)
  then show ?thesis
    using re_search_literal_iff [of "''/2x/''" "url s"]
    by (simp add: still_is_double_sized_def still_get_urls_def)
qed

text \<open>A still with the marker in its URL; a card that has it in the idolized URL only.\<close>

theorem is_double_sized_iff_marker_witness:
  "is_double_sized (StillItem \<lparr>still.key = 1, url = ''//i.idol.st/u/2x/1Still.png''\<rparr>)
   \<and> \<not> is_double_sized (CardItem \<lparr>card.key = 12, idol = ''Honoka'', rarity = ''Rare'',
        attribute = ''Smile'', unit = ''Muse'', subunit = ''Printemps'', year = ''Second'',
        normal_url = ''//i.idol.st/u/12x/a.png'', idolized_url = ''//i.idol.st/u/2x/b.png''\<rparr>)"
proof -
  have "''//i.idol.st/u/2x/1Still.png'' = ''//i.idol.st/u'' @ ''/2x/'' @ ''1Still.png''"
    by simp
  then have a: "\<exists>pre post. get_urls (StillItem \<lparr>still.key = 1, url = ''//i.idol.st/u/2x/1Still.png''\<rparr>) ! 0 = pre @ ''/2x/'' @ post"
    unfolding get_urls.simps still_get_urls_def by (simp only: still.simps nth_Cons_0) blast
  show ?thesis
    using a is_double_sized_iff_marker [of "StillItem \<lparr>still.key = 1, url = ''//i.idol.st/u/2x/1Still.png''\<rparr>"]
    by (simp add: card_is_double_sized_def)
qed

text \<open>
  C1, as the code has it: a card needs the check if and only if it is not high-res and
  its rarity is not \<open>Rare\<close>; a still needs it if and only if it is not high-res.
\<close>

theorem needs_update_by_kind:
  "(needs_update (CardItem c) \<longleftrightarrow> \<not> is_double_sized (CardItem c) \<and> rarity c \<noteq> ''Rare'')
   \<and> (needs_update (StillItem s) \<longleftrightarrow> \<not> is_double_sized (StillItem s))
   \<and> (needs_update (CardItem c) \<longleftrightarrow>
        \<not> (\<exists>pre post. normal_url c = pre @ ''/2x/'' @ post) \<and> rarity c \<noteq> ''Rare'')
   \<and> (needs_update (StillItem s) \<longleftrightarrow> \<not> (\<exists>pre post. url s = pre @ ''/2x/'' @ post))"
proof -
  have c: "card_is_double_sized c \<longleftrightarrow> (\<exists>pre post. normal_url c = pre @ ''/2x/'' @ post)"
    unfolding card_is_double_sized_def by (rule re_search_literal_iff)
  have s: "still_is_double_sized s \<longleftrightarrow> (\<exists>pre post. url s = pre @ ''/2x/'' @ post)"
    unfolding still_is_double_sized_def by (rule re_search_literal_iff)
  show ?thesis
    unfolding needs_update.simps is_double_sized.simps card_needs_update_def
      still_needs_update_def c s
    by blast
qed

text \<open>
  C1 as the specification words it fails on a card of rarity \<open>Rare\<close> that is not
  high-res: the wording gives true, whatever the top tier is, and \<open>needs_update\<close>
  returns false.
\<close>

theorem needs_update_spec_counterexample:
  "\<not> card_is_double_sized low_res_rare_card
   \<and> spec_card_needsResolutionCheck ''Rare'' low_res_rare_card
   \<and> spec_card_needsResolutionCheck ''UR'' low_res_rare_card
   \<and> \<not> needs_update (CardItem low_res_rare_card)"
  by (simp add: spec_card_needsResolutionCheck_def card_needs_update_def
      card_is_double_sized_def low_res_rare_card_def)

lemma digit_char_not_N: "d < 10 \<Longrightarrow> digit_char d \<noteq> CHR ''N''"
proof
  assume d: "d < 10" and e: "digit_char d = CHR ''N''"
  from e have "of_char (digit_char d) = (of_char (CHR ''N'') :: nat)" by simp
  then have "(48 + d) mod 256 = (78::nat)" by (simp add: digit_char_def)
  with d show False by simp
qed

lemma str_nat_no_N: "CHR ''N'' \<notin> set (str_nat n)"
proof (induction n rule: str_nat.induct)
  case (1 n)
  show ?case
  proof (cases "n < 10")
    case True
    then show ?thesis using digit_char_not_N [of n] by (subst str_nat.simps) auto
  next
    case False
    have "n mod 10 < 10" by simp
    then have "digit_char (n mod 10) \<noteq> CHR ''N''" by (rule digit_char_not_N)
    with False 1 show ?thesis by (subst str_nat.simps) auto
  qed
qed

lemma str_int_no_N: "CHR ''N'' \<notin> set (str_int i)"
  by (simp add: str_int_def str_nat_no_N)

lemma str_replace_keeps_prefix:
  "x \<notin> set p \<Longrightarrow> str_replace (x # xs) new (p @ s) = p @ str_replace (x # xs) new s"
proof (induction p)
  case Nil
  then show ?case by simp
next
  case (Cons c p)
  then have "c \<noteq> x" and "x \<notin> set p" by auto
  then show ?case using Cons.IH
    by (subst str_replace.simps) simp
qed

lemma idolized_name_prefix:
  "startswith (str_replace ''Normal'' ''Idolized'' (str_int k @ ''_'' @ rest)) (str_int k @ ''_'')"
proof -
  have "CHR ''N'' \<notin> set (str_int k @ ''_'')" by (simp add: str_int_no_N)
  then have "str_replace ''Normal'' ''Idolized'' ((str_int k @ ''_'') @ rest)
      = (str_int k @ ''_'') @ str_replace ''Normal'' ''Idolized'' rest"
    by (rule str_replace_keeps_prefix)
  then show ?thesis by (simp add: startswith_iff)
qed

lemma card_get_paths_names:
  "card_get_paths K c p =
     map (joinpath (joinpath p (CARD_RESULTS_DIR K)))
       [str_int (card.key c) @ ''_'' @ (unit c @ ''_'' @ idol c @ ''_Normal'' @ suffix (path_of_str (normal_url c))),
        str_replace ''Normal'' ''Idolized''
          (str_int (card.key c) @ ''_'' @ (unit c @ ''_'' @ idol c @ ''_Normal'' @ suffix (path_of_str (normal_url c))))]"
  by (simp add: card_get_paths_def Let_def)

lemma isdigit_slash: "\<not> isdigit CHR ''/''"
  by (simp add: isdigit_def)

lemma digit_char_code: "d < 10 \<Longrightarrow> (of_char (digit_char d) :: nat) = 48 + d"
  by (simp add: digit_char_def)

lemma str_nat_digits: "\<forall>c \<in> set (str_nat n). isdigit c"
proof (induction n rule: str_nat.induct)
  case (1 n)
  show ?case
  proof (cases "n < 10")
    case True
    then show ?thesis
      by (subst str_nat.simps) (simp add: isdigit_def digit_char_code)
  next
    case False
    have "n mod 10 < 10" by simp
    then have "isdigit (digit_char (n mod 10))" by (simp add: isdigit_def digit_char_code)
    with False 1 show ?thesis by (subst str_nat.simps) auto
  qed
qed

lemma str_nat_not_Nil: "str_nat n \<noteq> []"
  by (subst str_nat.simps) simp

lemma str_int_no_slash: "CHR ''/'' \<notin> set (str_int i)"
  using str_nat_digits isdigit_slash by (auto simp: str_int_def)

lemma str_int_not_Nil: "str_int i \<noteq> []"
  by (simp add: str_int_def str_nat_not_Nil)

lemma split_slash_not_Nil: "split_slash s \<noteq> []"
  by (induction s) (auto split: list.splits)

lemma split_slash_no_slash: "CHR ''/'' \<notin> set s \<Longrightarrow> split_slash s = [s]"
  by (induction s) auto

lemma split_slash_chunks: "w \<in> set (split_slash s) \<Longrightarrow> CHR ''/'' \<notin> set w"
proof (induction s arbitrary: w)
  case Nil
  then show ?case by simp
next
  case (Cons c cs)
  show ?case
  proof (cases "c = CHR ''/''")
    case True
    with Cons show ?thesis by auto
  next
    case False
    obtain v vs where sp: "split_slash cs = v # vs"
      using split_slash_not_Nil [of cs] by (cases "split_slash cs") auto
    with Cons.prems False have "w = c # v \<or> w \<in> set vs" by simp
    moreover have "CHR ''/'' \<notin> set v" using Cons.IH [of v] sp by simp
    moreover have "w \<in> set vs \<Longrightarrow> CHR ''/'' \<notin> set w" using Cons.IH [of w] sp by simp
    ultimately show ?thesis using False by auto
  qed
qed

lemma suffix_no_slash: "CHR ''/'' \<notin> set (suffix (path_of_str u))"
proof -
  have n: "CHR ''/'' \<notin> set (path_name (path_of_str u))"
  proof (cases "parts_of u = []")
    case True
    then show ?thesis by (simp add: path_name_def path_of_str_def)
  next
    case False
    then have "last (parts_of u) \<in> set (split_slash u)"
      using last_in_set [of "parts_of u"] by (auto simp: parts_of_def)
    then show ?thesis using False
      by (simp add: path_name_def path_of_str_def split_slash_chunks)
  qed
  show ?thesis
    using n by (auto simp: suffix_def Let_def split: option.splits dest: in_set_dropD)
qed

lemma str_replace_chars:
  "old \<noteq> [] \<Longrightarrow> set (str_replace old new s) \<subseteq> set s \<union> set new"
proof (induction old new s rule: str_replace.induct)
  case (1 old new s)
  show ?case
  proof (cases "s = []")
    case True
    then show ?thesis using 1 by (subst str_replace.simps) simp
  next
    case False
    show ?thesis
    proof (cases "startswith s old")
      case True
      with 1 False have "set (str_replace old new (drop (length old) s))
          \<subseteq> set (drop (length old) s) \<union> set new" by simp
      moreover have "set (drop (length old) s) \<subseteq> set s" by (rule set_drop_subset)
      ultimately show ?thesis using 1(3) False True
        by (subst str_replace.simps) auto
    next
      case nsw: False
      with 1 False have "set (str_replace old new (tl s)) \<subseteq> set (tl s) \<union> set new" by simp
      moreover have "set s = insert (hd s) (set (tl s))" using False by (cases s) auto
      ultimately show ?thesis using 1(3) False nsw
        by (subst str_replace.simps) auto
    qed
  qed
qed

lemma root_of_relative: "c \<noteq> CHR ''/'' \<Longrightarrow> root_of (c # cs) = []"
  by (simp add: root_of_def)

lemma path_name_joinpath:
  assumes "CHR ''/'' \<notin> set n" and "startswith n (str_int k @ ''_'')"
  shows "path_name (joinpath base n) = n"
proof -
  from assms(2) obtain r where n: "n = str_int k @ ''_'' @ r" by (auto simp: startswith_iff)
  obtain c cs where k: "str_int k = c # cs" using str_int_not_Nil [of k] by (cases "str_int k") auto
  have "c \<noteq> CHR ''/''" using str_int_no_slash [of k] k by auto
  then have r: "root_of n = []" using n k by (simp add: root_of_relative)
  have "n \<noteq> []" "n \<noteq> ''.''" using n k by auto
  then have "parts_of n = [n]" using assms(1) by (simp add: parts_of_def split_slash_no_slash)
  with r show ?thesis by (simp add: joinpath_def path_name_def)
qed

text \<open>
  C5, as the code has it: \<open>get_paths\<close> yields one path per URL slot; the paths of a
  card are determined by its key, its unit, its idol and the extension of its normal
  URL (the idolized URL plays no part), those of a still by its key and the extension
  of its URL; every path is the kind's folder under the root joined with a name that
  starts with the key and an underscore; and that name is the file name of the path,
  so that the file name starts with the key, for every still, and for every card whose
  unit and idol contain no slash.
\<close>

theorem get_paths_determined:
  "length (get_paths K it p) = length (get_urls it)
   \<and> (card.key c = card.key c' \<and> unit c = unit c' \<and> idol c = idol c'
        \<and> suffix (path_of_str (normal_url c)) = suffix (path_of_str (normal_url c'))
      \<longrightarrow> get_paths K (CardItem c) p = get_paths K (CardItem c') p)
   \<and> (still.key s = still.key s' \<and> suffix (path_of_str (url s)) = suffix (path_of_str (url s'))
      \<longrightarrow> get_paths K (StillItem s) p = get_paths K (StillItem s') p)
   \<and> (\<exists>names. get_paths K it p = map (joinpath (joinpath p (get_folder K it))) names
        \<and> (\<forall>n \<in> set names. startswith n (str_int (item_key it) @ ''_'')))
   \<and> (CHR ''/'' \<notin> set (unit c) \<and> CHR ''/'' \<notin> set (idol c)
      \<longrightarrow> (\<forall>q \<in> set (get_paths K (CardItem c) p).
            startswith (path_name q) (str_int (card.key c) @ ''_'')))
   \<and> (\<forall>q \<in> set (get_paths K (StillItem s) p).
            startswith (path_name q) (str_int (still.key s) @ ''_''))"
proof (intro conjI)
  show "length (get_paths K it p) = length (get_urls it)"
    by (cases it) (simp_all add: card_get_paths_def still_get_paths_def Let_def
        card_get_urls_def still_get_urls_def)
  show "card.key c = card.key c' \<and> unit c = unit c' \<and> idol c = idol c'
        \<and> suffix (path_of_str (normal_url c)) = suffix (path_of_str (normal_url c'))
      \<longrightarrow> get_paths K (CardItem c) p = get_paths K (CardItem c') p"
    by (simp add: card_get_paths_def)
  show "still.key s = still.key s' \<and> suffix (path_of_str (url s)) = suffix (path_of_str (url s'))
      \<longrightarrow> get_paths K (StillItem s) p = get_paths K (StillItem s') p"
    by (simp add: still_get_paths_def)
  show "\<exists>names. get_paths K it p = map (joinpath (joinpath p (get_folder K it))) names
        \<and> (\<forall>n \<in> set names. startswith n (str_int (item_key it) @ ''_''))"
  proof (cases it)
    case (CardItem c)
    let ?n1 = "str_int (card.key c) @ ''_'' @ (unit c @ ''_'' @ idol c @ ''_Normal'' @ suffix (path_of_str (normal_url c)))"
    have 1: "startswith ?n1 (str_int (card.key c) @ ''_'')"
      by (simp add: startswith_iff)
    have 2: "startswith (str_replace ''Normal'' ''Idolized'' ?n1) (str_int (card.key c) @ ''_'')"
      by (rule idolized_name_prefix)
    have "get_paths K it p = map (joinpath (joinpath p (get_folder K it)))
            [?n1, str_replace ''Normal'' ''Idolized'' ?n1]"
      using CardItem card_get_paths_names [of K c p] by simp
    moreover have "\<forall>n \<in> set [?n1, str_replace ''Normal'' ''Idolized'' ?n1].
        startswith n (str_int (item_key it) @ ''_'')"
      using 1 2 CardItem by simp
    ultimately show ?thesis by blast
  next
    case (StillItem s)
    let ?n = "str_int (still.key s) @ ''_'' @ (''Still'' @ suffix (path_of_str (url s)))"
    have "startswith ?n (str_int (still.key s) @ ''_'')"
      by (simp add: startswith_iff)
    moreover have "get_paths K it p = map (joinpath (joinpath p (get_folder K it))) [?n]"
      using StillItem by (simp add: still_get_paths_def)
    ultimately have "get_paths K it p = map (joinpath (joinpath p (get_folder K it))) [?n]
        \<and> (\<forall>n \<in> set [?n]. startswith n (str_int (item_key it) @ ''_''))"
      using StillItem by simp
    then show ?thesis by blast
  qed
  show "CHR ''/'' \<notin> set (unit c) \<and> CHR ''/'' \<notin> set (idol c)
      \<longrightarrow> (\<forall>q \<in> set (get_paths K (CardItem c) p).
            startswith (path_name q) (str_int (card.key c) @ ''_''))"
  proof
    assume ns: "CHR ''/'' \<notin> set (unit c) \<and> CHR ''/'' \<notin> set (idol c)"
    let ?n1 = "str_int (card.key c) @ ''_'' @ (unit c @ ''_'' @ idol c @ ''_Normal'' @ suffix (path_of_str (normal_url c)))"
    let ?n2 = "str_replace ''Normal'' ''Idolized'' ?n1"
    let ?base = "joinpath p (CARD_RESULTS_DIR K)"
    have s1: "CHR ''/'' \<notin> set ?n1"
      using ns str_int_no_slash [of "card.key c"] suffix_no_slash [of "normal_url c"] by simp
    have "set ?n2 \<subseteq> set ?n1 \<union> set ''Idolized''"
      by (rule str_replace_chars) simp
    with s1 have s2: "CHR ''/'' \<notin> set ?n2" by auto
    have p1: "startswith ?n1 (str_int (card.key c) @ ''_'')"
      by (simp add: startswith_iff)
    have p2: "startswith ?n2 (str_int (card.key c) @ ''_'')"
      by (rule idolized_name_prefix)
    have "path_name (joinpath ?base ?n1) = ?n1" using s1 p1 by (rule path_name_joinpath)
    moreover have "path_name (joinpath ?base ?n2) = ?n2" using s2 p2 by (rule path_name_joinpath)
    ultimately show "\<forall>q \<in> set (get_paths K (CardItem c) p).
            startswith (path_name q) (str_int (card.key c) @ ''_'')"
      using p1 p2 card_get_paths_names [of K c p] by simp
  qed
  show "\<forall>q \<in> set (get_paths K (StillItem s) p).
            startswith (path_name q) (str_int (still.key s) @ ''_'')"
  proof -
    let ?n = "str_int (still.key s) @ ''_'' @ (''Still'' @ suffix (path_of_str (url s)))"
    have s1: "CHR ''/'' \<notin> set ?n"
      using str_int_no_slash [of "still.key s"] suffix_no_slash [of "url s"] by simp
    have p1: "startswith ?n (str_int (still.key s) @ ''_'')"
      by (simp add: startswith_iff)
    have "path_name (joinpath (joinpath p (STILL_RESULTS_DIR K)) ?n) = ?n"
      using s1 p1 by (rule path_name_joinpath)
    then show ?thesis using p1 by (simp add: still_get_paths_def)
  qed
qed


lemma suffix_png: "suffix (path_of_str ''//i.idol.st/u/card/a.png'') = ''.png''"
  by code_simp

lemma suffix_png2: "suffix (path_of_str ''//i.idol.st/u/card/2x/c.png'') = ''.png''"
  by code_simp

text \<open>
  C5 as stated fails at slot 1 of a card: two cards with the same key, the same fields
  and the same idolized URL get different idolized paths, since the extension is that
  of the normal URL. It fails too for a card whose idol is \<open>A/B\<close>: the slash starts a
  new path component, and the file name is \<open>B_Normal.png\<close>, without the key.
\<close>

theorem get_paths_slot_extension_counterexample:
  "card.key card_png = card.key card_jpg
   \<and> idol card_png = idol card_jpg \<and> rarity card_png = rarity card_jpg
   \<and> attribute card_png = attribute card_jpg \<and> unit card_png = unit card_jpg
   \<and> subunit card_png = subunit card_jpg \<and> year card_png = year card_jpg
   \<and> get_urls (CardItem card_png) ! 1 = get_urls (CardItem card_jpg) ! 1
   \<and> get_paths consts_example (CardItem card_png) (path_of_str ''out'') ! 1
       \<noteq> get_paths consts_example (CardItem card_jpg) (path_of_str ''out'') ! 1
   \<and> path_name (get_paths consts_example (CardItem card_slash) (path_of_str ''out'') ! 0)
       = ''B_Normal.png''
   \<and> \<not> startswith
         (path_name (get_paths consts_example (CardItem card_slash) (path_of_str ''out'') ! 0))
         (str_int (card.key card_slash) @ ''_'')"
  by code_simp

text \<open>
  Two cards that agree on key, unit, idol and the extension of the normal URL, and on
  nothing else, have the same two paths; the unit and idol have no slash, and both file
  names start with the key.
\<close>

theorem get_paths_determined_witness:
  "card.key card_png = card.key card_png_other \<and> unit card_png = unit card_png_other
   \<and> idol card_png = idol card_png_other
   \<and> suffix (path_of_str (normal_url card_png)) = suffix (path_of_str (normal_url card_png_other))
   \<and> get_paths consts_example (CardItem card_png) (path_of_str ''out'')
       = get_paths consts_example (CardItem card_png_other) (path_of_str ''out'')
   \<and> length (get_paths consts_example (CardItem card_png) (path_of_str ''out'')) = 2
   \<and> CHR ''/'' \<notin> set (unit card_png) \<and> CHR ''/'' \<notin> set (idol card_png)
   \<and> startswith (path_name (get_paths consts_example (CardItem card_png) (path_of_str ''out'') ! 0))
         ''12_''
   \<and> startswith (path_name (get_paths consts_example (CardItem card_png) (path_of_str ''out'') ! 1))
         ''12_''"
proof -
  have h: "card.key card_png = card.key card_png_other \<and> unit card_png = unit card_png_other
   \<and> idol card_png = idol card_png_other
   \<and> suffix (path_of_str (normal_url card_png)) = suffix (path_of_str (normal_url card_png_other))"
    by (simp add: card_png_def card_png_other_def suffix_png suffix_png2)
  note t = get_paths_determined [of consts_example "CardItem card_png" "path_of_str ''out''"
      card_png card_png_other "\<lparr>still.key = 1, url = []\<rparr>" "\<lparr>still.key = 1, url = []\<rparr>"]
  from t h have eq: "get_paths consts_example (CardItem card_png) (path_of_str ''out'')
       = get_paths consts_example (CardItem card_png_other) (path_of_str ''out'')"
    by blast
  from t have "length (get_paths consts_example (CardItem card_png) (path_of_str ''out''))
       = length (get_urls (CardItem card_png))"
    by blast
  then have len: "length (get_paths consts_example (CardItem card_png) (path_of_str ''out'')) = 2"
    by (simp add: card_get_urls_def)
  have ns: "CHR ''/'' \<notin> set (unit card_png) \<and> CHR ''/'' \<notin> set (idol card_png)"
    by (simp add: card_png_def)
  have k: "str_int (card.key card_png) @ ''_'' = ''12_''" by code_simp
  from t ns have "\<forall>q \<in> set (get_paths consts_example (CardItem card_png) (path_of_str ''out'')).
      startswith (path_name q) (str_int (card.key card_png) @ ''_'')"
    by blast
  with len k have pn:
    "startswith (path_name (get_paths consts_example (CardItem card_png) (path_of_str ''out'') ! 0)) ''12_''"
    "startswith (path_name (get_paths consts_example (CardItem card_png) (path_of_str ''out'') ! 1)) ''12_''"
    by simp_all
  from h eq len ns pn show ?thesis by blast
qed

section \<open>Reconciliation\<close>

lemma update_if_needed_high_res:
  "is_double_sized it \<Longrightarrow> update_if_needed g it upd = Inr (it, upd)"
  by (cases it) (simp_all add: update_if_needed_def card_needs_update_def still_needs_update_def)

lemma update_loop_keeps_high_res:
  "i < length es \<Longrightarrow> is_double_sized (snd (es ! i))
    \<Longrightarrow> fst (state_of (update_loop g es upd)) ! i = es ! i"
proof (induction es arbitrary: upd i)
  case Nil
  then show ?case by simp
next
  case (Cons a es)
  obtain k it where a: "a = (k, it)" by (cases a)
  show ?case
  proof (cases i)
    case 0
    with Cons.prems a have "is_double_sized it" by simp
    then have "update_if_needed g it upd = Inr (it, upd)" by (rule update_if_needed_high_res)
    then show ?thesis using 0 a
      by (cases "update_loop g es upd") (auto split: prod.splits)
  next
    case (Suc j)
    with Cons.prems have j: "j < length es" "is_double_sized (snd (es ! j))" by simp_all
    show ?thesis
    proof (cases "update_if_needed g it upd")
      case (Inl err)
      then show ?thesis using a Suc by (cases err) auto
    next
      case (Inr r)
      obtain it' upd' where r: "r = (it', upd')" by (cases r)
      from Cons.IH [OF j, of upd'] have ih: "fst (state_of (update_loop g es upd')) ! j = es ! j" .
      show ?thesis
      proof (cases "update_loop g es upd'")
        case (Inl err)
        obtain e es' u where "err = (e, es', u)" by (cases err)
        with Inl Inr r a Suc ih show ?thesis by simp
      next
        case (Inr q)
        obtain es' u where "q = (es', u)" by (cases q)
        with Inr \<open>update_if_needed g it upd = Inr r\<close> r a Suc ih show ?thesis by simp
      qed
    qed
  qed
qed

text \<open>
  C2: an item whose primary URL is high-res does not need the check; \<open>update_if_needed\<close>
  then returns the item and the pending list as they are, whatever the item parser
  would answer (so the page is not requested and no slot is set), and the loop of
  \<open>update\<close> leaves the entry as it is, whether the loop completes or is left by an
  exception.
\<close>

theorem high_res_item_untouched:
  assumes "is_double_sized it"
  shows "\<not> needs_update it
    \<and> update_if_needed g it upd = Inr (it, upd)
    \<and> (\<forall>es u i. i < length es \<and> snd (es ! i) = it
          \<longrightarrow> fst (state_of (update_loop g es u)) ! i = es ! i)"
proof (intro conjI allI impI)
  show "\<not> needs_update it"
    using assms by (cases it) (simp_all add: card_needs_update_def still_needs_update_def)
  show "update_if_needed g it upd = Inr (it, upd)"
    using assms by (rule update_if_needed_high_res)
  fix es :: "(int \<times> item) list" and u i
  assume "i < length es \<and> snd (es ! i) = it"
  with assms show "fst (state_of (update_loop g es u)) ! i = es ! i"
    by (simp add: update_loop_keeps_high_res)
qed

lemma still_2x_high_res: "is_double_sized (StillItem still_2x)"
  by (simp add: still_2x_def still_is_double_sized_def)

text \<open>
  A high-res still, with an item parser that would answer with a low-res URL; in the
  loop it comes after a low-res still, whose page is requested.
\<close>

theorem high_res_item_untouched_witness:
  "is_double_sized (StillItem still_2x)
   \<and> \<not> needs_update (StillItem still_2x)
   \<and> update_if_needed low_res_parser (StillItem still_2x) [] = Inr (StillItem still_2x, [])
   \<and> fst (state_of (update_loop low_res_parser
        [(2, StillItem still_low), (7, StillItem still_2x)] [])) ! 1 = (7, StillItem still_2x)"
proof -
  note t = high_res_item_untouched [OF still_2x_high_res, of low_res_parser "[]"]
  from t have a: "\<not> needs_update (StillItem still_2x)" by blast
  from t have b: "update_if_needed low_res_parser (StillItem still_2x) [] = Inr (StillItem still_2x, [])"
    by blast
  from t have "(1::nat) < length [(2, StillItem still_low), (7::int, StillItem still_2x)]
      \<and> snd ([(2, StillItem still_low), (7::int, StillItem still_2x)] ! 1) = StillItem still_2x
     \<longrightarrow> fst (state_of (update_loop low_res_parser
        [(2, StillItem still_low), (7, StillItem still_2x)] [])) ! 1
          = [(2, StillItem still_low), (7, StillItem still_2x)] ! 1"
    by blast
  then have c: "fst (state_of (update_loop low_res_parser
        [(2, StillItem still_low), (7, StillItem still_2x)] [])) ! 1 = (7, StillItem still_2x)"
    by simp
  from still_2x_high_res a b c show ?thesis by blast
qed

lemma set_urls_loop_same_kind:
  "length (get_urls fresh) = length (get_urls it)
   \<Longrightarrow> \<exists>it'. set_urls_loop it fresh [0..<length (get_urls it)] = Inr it'
         \<and> get_urls it' = get_urls fresh \<and> item_key it' = item_key it"
proof (cases it)
  case (CardItem c)
  assume len: "length (get_urls fresh) = length (get_urls it)"
  with CardItem obtain d where fresh: "fresh = CardItem d"
    by (cases fresh) (simp_all add: card_get_urls_def still_get_urls_def)
  have "[0..<length (get_urls it)] = [0, Suc 0]"
    using CardItem by (simp add: card_get_urls_def upt_rec)
  then show ?thesis using CardItem fresh
    by (simp add: card_get_urls_def card_set_url_def)
next
  case (StillItem s)
  assume len: "length (get_urls fresh) = length (get_urls it)"
  with StillItem obtain d where fresh: "fresh = StillItem d"
    by (cases fresh) (simp_all add: card_get_urls_def still_get_urls_def)
  have "[0..<length (get_urls it)] = [0]"
    using StillItem by (simp add: still_get_urls_def)
  then show ?thesis using StillItem fresh
    by (simp add: still_get_urls_def still_set_url_def)
qed

text \<open>
  C3: when the item needs the check and its page is parsed into an item of the same
  kind, \<open>update_if_needed\<close> returns; the key is appended to \<open>updateables\<close> if and only if
  the fresh primary URL differs from the stored one; and the URLs of the item are then
  those of the fresh item at every slot, its key unchanged.
\<close>

theorem update_if_needed_refreshes_all_slots:
  assumes "needs_update it"
    and "get_item (item_key it) = Inr (n, fresh)"
    and "length (get_urls fresh) = length (get_urls it)"
  shows "\<exists>it'. update_if_needed get_item it upd =
            Inr (it', if get_urls fresh ! 0 \<noteq> get_urls it ! 0 then upd @ [item_key it] else upd)
          \<and> get_urls it' = get_urls fresh \<and> item_key it' = item_key it"
proof -
  from set_urls_loop_same_kind [OF assms(3)] obtain it' where
    l: "set_urls_loop it fresh [0..<length (get_urls it)] = Inr it'"
    and u: "get_urls it' = get_urls fresh" and k: "item_key it' = item_key it"
    by blast
  have "update_if_needed get_item it upd =
      Inr (it', if get_urls fresh ! 0 \<noteq> get_urls it ! 0 then upd @ [item_key it] else upd)"
    using assms(1,2) l by (auto simp: update_if_needed_def)
  with u k show ?thesis by blast
qed


text \<open>A low-res card whose page now gives both URLs at double size.\<close>

theorem update_if_needed_refreshes_all_slots_witness:
  "needs_update (CardItem card_png)
   \<and> card_2x_parser (item_key (CardItem card_png)) = Inr (12, CardItem card_2x)
   \<and> length (get_urls (CardItem card_2x)) = length (get_urls (CardItem card_png))
   \<and> (\<exists>it'. update_if_needed card_2x_parser (CardItem card_png) [3] = Inr (it', [3, 12])
         \<and> get_urls it' = [''//i.idol.st/u/card/2x/a.png'', ''//i.idol.st/u/card/2x/b.png''])"
proof -
  have a: "needs_update (CardItem card_png)"
    by (simp add: card_needs_update_def card_is_double_sized_def card_png_def)
  have b: "card_2x_parser (item_key (CardItem card_png)) = Inr (12, CardItem card_2x)"
    by (simp add: card_2x_parser_def card_2x_def card_png_def)
  have c: "length (get_urls (CardItem card_2x)) = length (get_urls (CardItem card_png))"
    by (simp add: card_get_urls_def)
  have d: "get_urls (CardItem card_2x) ! 0 \<noteq> get_urls (CardItem card_png) ! 0"
    by (simp add: card_get_urls_def card_2x_def card_png_def)
  have k: "item_key (CardItem card_png) = 12"
    by (simp add: card_png_def)
  have g: "get_urls (CardItem card_2x) = [''//i.idol.st/u/card/2x/a.png'', ''//i.idol.st/u/card/2x/b.png'']"
    by (simp add: card_get_urls_def card_2x_def)
  from update_if_needed_refreshes_all_slots
      [where it = "CardItem card_png" and get_item = card_2x_parser and n = 12
        and fresh = "CardItem card_2x" and upd = "[3]", OF a b c]
  have "\<exists>it'. update_if_needed card_2x_parser (CardItem card_png) [3] = Inr (it', [3, 12])
         \<and> get_urls it' = [''//i.idol.st/u/card/2x/a.png'', ''//i.idol.st/u/card/2x/b.png'']"
    using d k g by auto
  with a b c show ?thesis by blast
qed

section \<open>The update as a whole\<close>

lemma update_loop_append:
  "update_loop g (xs @ ys) upd =
     (case update_loop g xs upd of
        Inl (e, xs', u) \<Rightarrow> Inl (e, xs' @ ys, u)
      | Inr (xs', u) \<Rightarrow>
          (case update_loop g ys u of
             Inl (e, ys', u') \<Rightarrow> Inl (e, xs' @ ys', u')
           | Inr (ys', u') \<Rightarrow> Inr (xs' @ ys', u')))"
proof (induction xs arbitrary: upd)
  case Nil
  then show ?case by (simp split: sum.splits prod.splits)
next
  case (Cons a xs)
  obtain k it where a: "a = (k, it)" by (cases a)
  show ?case
    unfolding a by (simp add: Cons.IH split: sum.splits prod.splits)
qed

lemma print_json_file: "json_file (print l s) = json_file s"
  by (simp add: print_def)

lemma gather_items_json_file:
  "json_file (state_of (gather_items g ks s)) = json_file s"
proof (induction ks arbitrary: s)
  case Nil
  then show ?case by simp
next
  case (Cons k ks)
  show ?case
  proof (cases "g k")
    case (Inl e)
    then show ?thesis by (simp add: add_item_to_object_list_def)
  next
    case (Inr r)
    obtain n obj where "r = (n, obj)" by (cases r)
    with Inr show ?thesis
      by (simp add: add_item_to_object_list_def Cons.IH print_json_file)
  qed
qed

lemma pages_loop_json_file:
  "json_file (state_of (pages_loop g pages s)) = json_file s"
proof (induction pages arbitrary: s)
  case Nil
  then show ?case by simp
next
  case (Cons page pages)
  let ?r = "gather_items g (filter (\<lambda>k. k \<notin> fst ` set (objs s)) page) s"
  have h: "json_file (state_of ?r) = json_file s" by (rule gather_items_json_file)
  show ?case
  proof (cases ?r)
    case (Inl err)
    obtain e s' where "err = (e, s')" by (cases err)
    with Inl h show ?thesis by simp
  next
    case (Inr s')
    with h have "json_file s' = json_file s" by simp
    with Inr show ?thesis by (simp add: Cons.IH)
  qed
qed

lemma get_cards_from_parser_json_file:
  "json_file (state_of (get_cards_from_parser lp g s)) = json_file s"
  by (simp add: get_cards_from_parser_def pages_loop_json_file split: sum.splits)

text \<open>
  C8, as the code has it: \<open>update\<close> has no handler around \<open>update_if_needed\<close>. When
  discovery has returned, the items before some entry have been checked, and the
  request for that entry's page raises \<open>e\<close>, then \<open>e\<close> leaves \<open>update\<close>: the entry and
  all entries after it are as they were, and the catalogue file is the one from before
  the run.
\<close>

theorem reconciliation_failure_aborts_update:
  assumes "get_cards_from_parser lp get_item (print ''Searching for new or missing items...'' s) = Inr s1"
    and "objs s1 = before @ (k, it) # rest"
    and "update_loop get_item_again before (updateables s1) = Inr (before', upd1)"
    and "needs_update it"
    and "get_item_again (item_key it) = Inl e"
  shows "\<exists>s'. update lp get_item get_item_again s = Inl (e, s')
           \<and> json_file s' = json_file s
           \<and> objs s' = before' @ (k, it) # rest"
proof -
  let ?s2 = "print ''Checking if items can be updated to better resolution...'' s1"
  have o: "objs ?s2 = before @ (k, it) # rest" and u: "updateables ?s2 = updateables s1"
    using assms(2) by (simp_all add: print_def)
  have "update_if_needed get_item_again it upd1 = Inl (e, it, upd1)"
    using assms(4,5) by (simp add: update_if_needed_def)
  then have "update_loop get_item_again ((k, it) # rest) upd1 = Inl (e, (k, it) # rest, upd1)"
    by simp
  with assms(3) have l: "update_loop get_item_again (objs ?s2) (updateables ?s2)
      = Inl (e, before' @ (k, it) # rest, upd1)"
    unfolding o u by (simp add: update_loop_append)
  have "json_file (state_of (get_cards_from_parser lp get_item
          (print ''Searching for new or missing items...'' s))) = json_file s"
    by (simp add: get_cards_from_parser_json_file print_json_file)
  with assms(1) have j: "json_file s1 = json_file s" by simp
  have "update lp get_item get_item_again s
      = Inl (e, ?s2\<lparr>objs := before' @ (k, it) # rest, updateables := upd1\<rparr>)"
    using assms(1) l by (simp add: update_def Let_def)
  moreover have "json_file (?s2\<lparr>objs := before' @ (k, it) # rest, updateables := upd1\<rparr>) = json_file s"
    using j by (simp add: print_def)
  ultimately show ?thesis by simp
qed

text \<open>
  C8 as stated fails: in the run below the request for key 2 fails during the check;
  \<open>update\<close> raises, the catalogue is not dumped, and key 1, which the site now
  publishes at double size, keeps its low-res URL.
\<close>

theorem reconciliation_failure_counterexample:
  "isl (update one_page_list_parser low_res_parser flaky_parser new_downloader)
   \<and> fst (projl (update one_page_list_parser low_res_parser flaky_parser new_downloader))
        = OtherException ''timeout''
   \<and> json_file (state_of (update one_page_list_parser low_res_parser flaky_parser new_downloader))
        = None
   \<and> objs (state_of (update one_page_list_parser low_res_parser flaky_parser new_downloader))
        = [(2, StillItem \<lparr>still.key = 2, url = ''//i.idol.st/u/still/low.png''\<rparr>),
           (1, StillItem \<lparr>still.key = 1, url = ''//i.idol.st/u/still/low.png''\<rparr>)]
   \<and> flaky_parser 1
        = Inr (1, StillItem \<lparr>still.key = 1, url = ''//i.idol.st/u/still/2x/new.png''\<rparr>)"
  by code_simp

text \<open>The same run, through the theorem.\<close>

theorem reconciliation_failure_aborts_update_witness:
  "\<not> isl (get_cards_from_parser one_page_list_parser low_res_parser
          (print ''Searching for new or missing items...'' new_downloader))
   \<and> needs_update (StillItem \<lparr>still.key = 2, url = ''//i.idol.st/u/still/low.png''\<rparr>)
   \<and> flaky_parser 2 = Inl (OtherException ''timeout'')
   \<and> (\<exists>s'. update one_page_list_parser low_res_parser flaky_parser new_downloader
              = Inl (OtherException ''timeout'', s')
         \<and> json_file s' = None
         \<and> objs s' = [(2, StillItem \<lparr>still.key = 2, url = ''//i.idol.st/u/still/low.png''\<rparr>),
                       (1, StillItem \<lparr>still.key = 1, url = ''//i.idol.st/u/still/low.png''\<rparr>)])"
proof -
  let ?X = "get_cards_from_parser one_page_list_parser low_res_parser
          (print ''Searching for new or missing items...'' new_downloader)"
  let ?it = "StillItem \<lparr>still.key = 2, url = ''//i.idol.st/u/still/low.png''\<rparr>"
  let ?rest = "[(1::int, StillItem \<lparr>still.key = 1, url = ''//i.idol.st/u/still/low.png''\<rparr>)]"
  have n: "\<not> isl ?X" by code_simp
  then have a1: "?X = Inr (projr ?X)" by simp
  have a2: "objs (projr ?X) = [] @ (2, ?it) # ?rest" by code_simp
  have a3: "update_loop flaky_parser [] (updateables (projr ?X)) = Inr ([], updateables (projr ?X))"
    by simp
  have a4: "needs_update ?it" by code_simp
  have a5: "flaky_parser (item_key ?it) = Inl (OtherException ''timeout'')" by code_simp
  have j: "json_file new_downloader = None" by code_simp
  from reconciliation_failure_aborts_update [OF a1 a2 a3 a4 a5] j
  have "\<exists>s'. update one_page_list_parser low_res_parser flaky_parser new_downloader
              = Inl (OtherException ''timeout'', s')
         \<and> json_file s' = None
         \<and> objs s' = [(2, ?it), (1, StillItem \<lparr>still.key = 1, url = ''//i.idol.st/u/still/low.png''\<rparr>)]"
    by simp
  moreover have "flaky_parser 2 = Inl (OtherException ''timeout'')" by code_simp
  ultimately show ?thesis using n a4 by blast
qed

section \<open>The download phase\<close>


lemma create_image_file_frame:
  "objs (state_of (create_image_file w p it i s)) = objs s
   \<and> updateables (state_of (create_image_file w p it i s)) = updateables s
   \<and> path (state_of (create_image_file w p it i s)) = path s
   \<and> json_file (state_of (create_image_file w p it i s)) = json_file s
   \<and> (files s q \<noteq> None \<longrightarrow> files (state_of (create_image_file w p it i s)) q \<noteq> None)
   \<and> set (stdout s) \<subseteq> set (stdout (state_of (create_image_file w p it i s)))"
  by (auto simp: create_image_file_def write_to_file_def print_def
      split: sum.splits option.splits)

lemma download_images_from_frame:
  "objs (state_of (download_images_from w i ps it s)) = objs s
   \<and> updateables (state_of (download_images_from w i ps it s)) = updateables s
   \<and> path (state_of (download_images_from w i ps it s)) = path s
   \<and> json_file (state_of (download_images_from w i ps it s)) = json_file s
   \<and> (files s q \<noteq> None \<longrightarrow> files (state_of (download_images_from w i ps it s)) q \<noteq> None)
   \<and> set (stdout s) \<subseteq> set (stdout (state_of (download_images_from w i ps it s)))"
proof (induction ps arbitrary: i s)
  case Nil
  then show ?case by simp
next
  case (Cons p ps)
  note f = create_image_file_frame [of w p it i s q]
  show ?case
  proof (cases "create_image_file w p it i s")
    case (Inl err)
    obtain e s' where "err = (e, s')" by (cases err)
    with Inl f show ?thesis by simp
  next
    case (Inr s')
    with f Cons.IH [of "Suc i" s'] show ?thesis by auto
  qed
qed

lemma get_images_frame:
  "objs (get_images K w it s) = objs s
   \<and> updateables (get_images K w it s) = updateables s
   \<and> path (get_images K w it s) = path s
   \<and> json_file (get_images K w it s) = json_file s
   \<and> (files s q \<noteq> None \<longrightarrow> files (get_images K w it s) q \<noteq> None)
   \<and> set (stdout s) \<subseteq> set (stdout (get_images K w it s))"
proof -
  note f = download_images_from_frame [of w 0 "get_paths K it (path s)" it s q]
  show ?thesis
  proof (cases "download_images_from w 0 (get_paths K it (path s)) it s")
    case (Inl err)
    obtain e s' where "err = (e, s')" by (cases err)
    with Inl f show ?thesis
      by (auto simp: get_images_def download_images_def print_def)
  next
    case (Inr s')
    with f show ?thesis
      by (auto simp: get_images_def download_images_def)
  qed
qed

lemma download_tasks_frame:
  "objs (download_tasks K w es s) = objs s
   \<and> updateables (download_tasks K w es s) = updateables s
   \<and> path (download_tasks K w es s) = path s
   \<and> json_file (download_tasks K w es s) = json_file s
   \<and> (files s q \<noteq> None \<longrightarrow> files (download_tasks K w es s) q \<noteq> None)
   \<and> set (stdout s) \<subseteq> set (stdout (download_tasks K w es s))"
proof (induction es arbitrary: s)
  case Nil
  then show ?case by simp
next
  case (Cons a es)
  obtain k it where a: "a = (k, it)" by (cases a)
  from get_images_frame [of K w it s q] Cons.IH [of "get_images K w it s"]
  show ?case unfolding a by auto
qed

lemma download_tasks_append:
  "download_tasks K w (xs @ ys) s = download_tasks K w ys (download_tasks K w xs s)"
  by (induction xs arbitrary: s) auto

text \<open>When every request and every open succeeds, the loop returns and the files exist.\<close>

lemma download_images_from_ok:
  "list_all2 (\<lambda>u p. (\<exists>d. http_get w (''https:'' @ u) = Inr d) \<and> open_wb w p = None)
      (drop i (get_urls it)) ps
   \<Longrightarrow> \<exists>s'. download_images_from w i ps it s = Inr s' \<and> (\<forall>p \<in> set ps. files s' p \<noteq> None)"
proof (induction ps arbitrary: i s)
  case Nil
  then show ?case by simp
next
  case (Cons p ps)
  from Cons.prems obtain u us where d: "drop i (get_urls it) = u # us"
    and ok: "\<exists>d. http_get w (''https:'' @ u) = Inr d" "open_wb w p = None"
    and rest: "list_all2 (\<lambda>u p. (\<exists>d. http_get w (''https:'' @ u) = Inr d) \<and> open_wb w p = None) us ps"
    by (auto simp: list_all2_Cons2)
  from d have i: "i < length (get_urls it)"
    by (metis drop_all list.distinct(1) not_le)
  from d have u: "get_urls it ! i = u" by (simp add: nth_via_drop)
  from d have us: "drop (Suc i) (get_urls it) = us"
    by (metis drop_Suc list.sel(3) tl_drop)
  from ok obtain dat where dat: "http_get w (''https:'' @ u) = Inr dat" by blast
  have "\<exists>s1. create_image_file w p it i s = Inr s1 \<and> files s1 p \<noteq> None"
    using i u dat ok(2)
    by (auto simp: create_image_file_def write_to_file_def print_def)
  then obtain s1 where c: "create_image_file w p it i s = Inr s1" and f: "files s1 p \<noteq> None"
    by blast
  from rest us Cons.IH [of "Suc i" s1] obtain s' where
    r: "download_images_from w (Suc i) ps it s1 = Inr s'" and a: "\<forall>p \<in> set ps. files s' p \<noteq> None"
    by auto
  from download_images_from_frame [where s = s1 and q = p and w = w and i = "Suc i" and ps = ps and it = it] f r
  have "files s' p \<noteq> None" by simp
  with c r a show ?case by simp
qed

lemma get_images_ok:
  assumes "list_all2 (\<lambda>u p. (\<exists>d. http_get w (''https:'' @ u) = Inr d) \<and> open_wb w p = None)
      (get_urls it) (get_paths K it (path s))"
  shows "\<forall>p \<in> set (get_paths K it (path s)). files (get_images K w it s) p \<noteq> None"
proof -
  from assms download_images_from_ok [of w 0 it "get_paths K it (path s)" s]
  obtain s' where "download_images_from w 0 (get_paths K it (path s)) it s = Inr s'"
    and "\<forall>p \<in> set (get_paths K it (path s)). files s' p \<noteq> None"
    by auto
  then show ?thesis by (simp add: get_images_def download_images_def)
qed

lemma download_tasks_ok:
  assumes "(k, it) \<in> set es"
    and "list_all2 (\<lambda>u p. (\<exists>d. http_get w (''https:'' @ u) = Inr d) \<and> open_wb w p = None)
      (get_urls it) (get_paths K it (path s))"
  shows "\<forall>p \<in> set (get_paths K it (path s)). files (download_tasks K w es s) p \<noteq> None"
proof -
  from assms(1) obtain xs ys where es: "es = xs @ (k, it) # ys"
    by (meson split_list)
  let ?s1 = "download_tasks K w xs s"
  have p: "path ?s1 = path s" using download_tasks_frame [of K w xs s] by simp
  from assms(2) p get_images_ok [of w it K ?s1]
  have g: "\<forall>p \<in> set (get_paths K it (path s)). files (get_images K w it ?s1) p \<noteq> None"
    by simp
  have "download_tasks K w es s = download_tasks K w ys (get_images K w it ?s1)"
    by (simp add: es download_tasks_append)
  with g download_tasks_frame [where s = "get_images K w it ?s1" and K = K and w = w and es = ys]
  show ?thesis by auto
qed













lemma py_int_snoc: "py_int (ds @ [c]) = 10 * py_int ds + (int (of_char c) - 48)"
  by (simp add: py_int_def)

lemma py_int_str_nat: "py_int (str_nat n) = int n"
proof (induction n rule: str_nat.induct)
  case (1 n)
  show ?case
  proof (cases "n < 10")
    case True
    then have "str_nat n = [digit_char n]" by (subst str_nat.simps) simp
    with True show ?thesis by (simp add: py_int_def digit_char_code)
  next
    case False
    then have s: "str_nat n = str_nat (n div 10) @ [digit_char (n mod 10)]"
      by (subst str_nat.simps) simp
    have "n mod 10 < 10" by simp
    then have d: "(of_char (digit_char (n mod 10)) :: nat) = 48 + n mod 10"
      by (rule digit_char_code)
    from False 1 have "py_int (str_nat (n div 10)) = int (n div 10)" by simp
    then have "py_int (str_nat n) = 10 * int (n div 10) + int (n mod 10)"
      unfolding s py_int_snoc d by simp
    then show ?thesis by (simp add: zdiv_int zmod_int)
  qed
qed

lemma py_int_str_int: "0 \<le> k \<Longrightarrow> py_int (str_int k) = k"
  by (simp add: str_int_def py_int_str_nat)

text \<open>
  C7: in the download phase, an item whose requests and opens all succeed has all its
  files on disk at the end, whatever happens to the other items; when the download of
  the images of an item is left by an exception \<open>e\<close>, the line
  \<open>Couldn't download card\<close>, the key in decimal, a colon, \<open>str(e)\<close> and a full stop is
  among the lines printed, where the decimal of a key that is not negative reads back
  as the key and \<open>str(e)\<close> is the text of the failure; and \<open>download\<close> returns, with
  the catalogue, the pending list and the catalogue file as they were.
\<close>

theorem download_tolerates_failures:
  "((k, it) \<in> set (objs s)
      \<and> list_all2 (\<lambda>u p. (\<exists>d. http_get w (''https:'' @ u) = Inr d) \<and> open_wb w p = None)
            (get_urls it) (get_paths K it (path s))
     \<longrightarrow> (\<forall>p \<in> set (get_paths K it (path s)). files (download K w s) p \<noteq> None))
   \<and> (objs s = before @ (k', it') # rest
       \<and> download_images w (get_paths K it' (path s)) it' (download_tasks K w before s) = Inl (e, s')
     \<longrightarrow> ''Couldn't download card '' @ str_int (item_key it') @ '': '' @ str_exn e @ ''.''
           \<in> set (stdout (download K w s)))
   \<and> (0 \<le> item_key it' \<longrightarrow> py_int (str_int (item_key it')) = item_key it')
   \<and> str_exn (OtherException msg) = msg
   \<and> objs (download K w s) = objs s
   \<and> updateables (download K w s) = updateables s
   \<and> json_file (download K w s) = json_file s"
proof (intro conjI impI)
  assume "(k, it) \<in> set (objs s)
      \<and> list_all2 (\<lambda>u p. (\<exists>d. http_get w (''https:'' @ u) = Inr d) \<and> open_wb w p = None)
            (get_urls it) (get_paths K it (path s))"
  then show "\<forall>p \<in> set (get_paths K it (path s)). files (download K w s) p \<noteq> None"
    using download_tasks_ok [of k it "objs s" w K s] by (simp add: download_def)
next
  assume a: "objs s = before @ (k', it') # rest
       \<and> download_images w (get_paths K it' (path s)) it' (download_tasks K w before s) = Inl (e, s')"
  let ?s1 = "download_tasks K w before s"
  have p: "path ?s1 = path s" using download_tasks_frame [of K w before s] by simp
  from a p have "get_images K w it' ?s1 = print (failure_message it' e) s'"
    by (simp add: get_images_def)
  then have "failure_message it' e \<in> set (stdout (get_images K w it' ?s1))"
    by (simp add: print_def)
  moreover have "download K w s = download_tasks K w rest (get_images K w it' ?s1)"
    using a by (simp add: download_def download_tasks_append)
  ultimately have "failure_message it' e \<in> set (stdout (download K w s))"
    using download_tasks_frame [where s = "get_images K w it' ?s1" and K = K and w = w and es = rest]
    by auto
  then show "''Couldn't download card '' @ str_int (item_key it') @ '': '' @ str_exn e @ ''.''
      \<in> set (stdout (download K w s))"
    by (simp add: failure_message_def)
next
  assume "0 \<le> item_key it'"
  then show "py_int (str_int (item_key it')) = item_key it'"
    by (rule py_int_str_int)
next
  show "str_exn (OtherException msg) = msg" by simp
  show "objs (download K w s) = objs s"
    using download_tasks_frame [of K w "objs s" s] by (simp add: download_def)
  show "updateables (download K w s) = updateables s"
    using download_tasks_frame [of K w "objs s" s] by (simp add: download_def)
  show "json_file (download K w s) = json_file s"
    using download_tasks_frame [of K w "objs s" s] by (simp add: download_def)
qed




lemma still_low_fails:
  "download_images timeout_io (get_paths consts_example (StillItem still_low) (path catalogued))
      (StillItem still_low) (download_tasks consts_example timeout_io [] catalogued)
    = Inl (OtherException ''timeout'', catalogued)"
  by (simp add: download_images_def still_get_paths_def create_image_file_def write_to_file_def
      timeout_io_def still_get_urls_def still_low_def catalogued_def new_downloader_def)

lemma card_png_ok:
  "list_all2 (\<lambda>u p. (\<exists>d. http_get timeout_io (''https:'' @ u) = Inr d) \<and> open_wb timeout_io p = None)
     (get_urls (CardItem card_png)) (get_paths consts_example (CardItem card_png) (path catalogued))"
  by (simp add: timeout_io_def card_get_urls_def card_get_paths_def Let_def card_png_def)

text \<open>
  The request for the still's asset times out: the line
  \<open>Couldn't download card 2: timeout.\<close> is printed and both files of the card are on disk.
\<close>

theorem download_tolerates_failures_witness:
  "objs catalogued = [] @ (2, StillItem still_low) # [(12, CardItem card_png)]
   \<and> download_images timeout_io (get_paths consts_example (StillItem still_low) (path catalogued))
        (StillItem still_low) (download_tasks consts_example timeout_io [] catalogued)
      = Inl (OtherException ''timeout'', catalogued)
   \<and> ''Couldn't download card 2: timeout.''
        \<in> set (stdout (download consts_example timeout_io catalogued))
   \<and> list_all2 (\<lambda>u p. (\<exists>d. http_get timeout_io (''https:'' @ u) = Inr d) \<and> open_wb timeout_io p = None)
        (get_urls (CardItem card_png)) (get_paths consts_example (CardItem card_png) (path catalogued))
   \<and> get_paths consts_example (CardItem card_png) (path catalogued)
        = [Path [] [''out'', ''All'', ''12_Muse_Honoka_Normal.png''],
           Path [] [''out'', ''All'', ''12_Muse_Honoka_Idolized.png'']]
   \<and> files (download consts_example timeout_io catalogued)
         (Path [] [''out'', ''All'', ''12_Muse_Honoka_Normal.png'']) \<noteq> None
   \<and> files (download consts_example timeout_io catalogued)
         (Path [] [''out'', ''All'', ''12_Muse_Honoka_Idolized.png'']) \<noteq> None"
proof -
  note t = download_tolerates_failures [where s = catalogued and K = consts_example
      and w = timeout_io and k = 12 and it = "CardItem card_png" and before = "[]" and k' = 2
      and it' = "StillItem still_low" and rest = "[(12, CardItem card_png)]"
      and e = "OtherException ''timeout''" and s' = catalogued and msg = "''timeout''"]
  have o: "objs catalogued = [] @ (2, StillItem still_low) # [(12, CardItem card_png)]"
    by (simp add: catalogued_def new_downloader_def)
  then have m: "(12, CardItem card_png) \<in> set (objs catalogued)" by simp
  have line: "''Couldn't download card '' @ str_int (item_key (StillItem still_low)) @ '': ''
        @ str_exn (OtherException ''timeout'') @ ''.'' = ''Couldn't download card 2: timeout.''"
    by code_simp
  from t o still_low_fails
  have "''Couldn't download card '' @ str_int (item_key (StillItem still_low)) @ '': ''
        @ str_exn (OtherException ''timeout'') @ ''.''
        \<in> set (stdout (download consts_example timeout_io catalogued))"
    by blast
  then have f: "''Couldn't download card 2: timeout.''
        \<in> set (stdout (download consts_example timeout_io catalogued))"
    unfolding line .
  from t m card_png_ok
  have g: "\<forall>p \<in> set (get_paths consts_example (CardItem card_png) (path catalogued)).
         files (download consts_example timeout_io catalogued) p \<noteq> None"
    by blast
  have ps: "get_paths consts_example (CardItem card_png) (path catalogued)
        = [Path [] [''out'', ''All'', ''12_Muse_Honoka_Normal.png''],
           Path [] [''out'', ''All'', ''12_Muse_Honoka_Idolized.png'']]"
    by code_simp
  from g have h: "files (download consts_example timeout_io catalogued)
         (Path [] [''out'', ''All'', ''12_Muse_Honoka_Normal.png'']) \<noteq> None"
    "files (download consts_example timeout_io catalogued)
         (Path [] [''out'', ''All'', ''12_Muse_Honoka_Idolized.png'']) \<noteq> None"
    unfolding ps by simp_all
  from o still_low_fails f card_png_ok ps h show ?thesis by blast
qed

section \<open>The parsers\<close>

lemma re_search_key_Some_link:
  "re_search_key s = Some ds \<Longrightarrow>
     \<exists>pre post. s = pre @ ''/'' @ ds @ ''/'' @ post \<and> ds \<noteq> [] \<and> (\<forall>c \<in> set ds. isdigit c)"
proof (induction s)
  case Nil
  then show ?case by simp
next
  case (Cons c cs)
  show ?case
  proof (cases "c = CHR ''/'' \<and> takeWhile isdigit cs \<noteq> [] \<and> startswith (dropWhile isdigit cs) ''/''")
    case True
    with Cons.prems have ds: "ds = takeWhile isdigit cs" by simp
    from True obtain r where r: "dropWhile isdigit cs = ''/'' @ r"
      by (auto simp: startswith_iff)
    have "cs = takeWhile isdigit cs @ dropWhile isdigit cs" by simp
    with r ds have "c # cs = [] @ ''/'' @ ds @ ''/'' @ r" using True by simp
    moreover have "ds \<noteq> []" using True ds by simp
    moreover have "\<forall>c \<in> set ds. isdigit c" using ds by (auto dest: set_takeWhileD)
    ultimately show ?thesis by blast
  next
    case False
    with Cons.prems have "re_search_key cs = Some ds" by auto
    with Cons.IH obtain pre post where "cs = pre @ ''/'' @ ds @ ''/'' @ post"
      and d: "ds \<noteq> []" "\<forall>c \<in> set ds. isdigit c" by blast
    then have "c # cs = (c # pre) @ ''/'' @ ds @ ''/'' @ post" by simp
    with d show ?thesis by blast
  qed
qed

lemma re_search_key_link:
  "ds \<noteq> [] \<Longrightarrow> \<forall>c \<in> set ds. isdigit c
    \<Longrightarrow> re_search_key (pre @ ''/'' @ ds @ ''/'' @ post) \<noteq> None"
proof (induction pre)
  case Nil
  have "takeWhile isdigit (ds @ CHR ''/'' # post) = ds"
    using Nil.prems(2) isdigit_slash by (simp add: takeWhile_append2)
  moreover have "dropWhile isdigit (ds @ CHR ''/'' # post) = CHR ''/'' # post"
    using Nil.prems(2) isdigit_slash by (simp add: dropWhile_append2)
  ultimately show ?case using Nil.prems(1) by simp
next
  case (Cons c pre)
  then show ?case by simp
qed

lemma re_search_key_iff: "re_search_key s \<noteq> None \<longleftrightarrow> has_key_link s"
proof
  assume "re_search_key s \<noteq> None"
  then obtain ds where "re_search_key s = Some ds" by auto
  from re_search_key_Some_link [OF this] show "has_key_link s"
    unfolding has_key_link_def by blast
next
  assume "has_key_link s"
  then obtain pre ds post where "s = pre @ ''/'' @ ds @ ''/'' @ post" "ds \<noteq> []"
    "\<forall>c \<in> set ds. isdigit c"
    unfolding has_key_link_def by blast
  then show "re_search_key s \<noteq> None" using re_search_key_link by blast
qed

lemma get_page_loop_eq:
  "get_page_loop items nums = nums @ List.map_filter advertised_key items"
proof (induction items arbitrary: nums)
  case Nil
  then show ?case by (simp add: List.map_filter_simps)
next
  case (Cons item items)
  show ?case
    by (simp add: Cons.IH List.map_filter_simps advertised_key_def
        split: option.splits attr_value.splits)
qed

lemma advertised_key_iff:
  "advertised_key item \<noteq> None \<longleftrightarrow>
     (\<exists>a href. find_name ''a'' item = Some a \<and> tag_get a ''href'' = Some (AttrStr href)
        \<and> has_key_link href)"
  using re_search_key_iff
  by (auto simp: advertised_key_def split: option.splits attr_value.splits)

lemma advertised_key_None_iff:
  "advertised_key item = None \<longleftrightarrow>
     \<not> (\<exists>a href. find_name ''a'' item = Some a \<and> tag_get a ''href'' = Some (AttrStr href)
          \<and> has_key_link href)"
  using advertised_key_iff [of item] by blast

lemma map_filter_Nil_iff: "List.map_filter f xs = [] \<longleftrightarrow> (\<forall>x \<in> set xs. f x = None)"
  by (induction xs) (auto simp: List.map_filter_simps split: option.splits)

lemma sorted_reverse_props:
  "sorted_wrt (\<lambda>a b. a \<ge> b) (sorted_reverse nums) \<and> mset (sorted_reverse nums) = mset nums
   \<and> (sorted_reverse nums = [] \<longleftrightarrow> nums = [])"
proof -
  have "sorted_wrt (\<lambda>a b. a \<ge> b) (rev (sort nums))"
    using sorted_sort [of nums] by (simp add: sorted_wrt_rev)
  moreover have "sort nums = [] \<longleftrightarrow> nums = []"
    by (metis mset_sort mset_zero_iff)
  ultimately show ?thesis by (simp add: sorted_reverse_def)
qed

text \<open>
  C6: when the session serves the listing page, \<open>get_page\<close> either returns the keys
  advertised on the page, sorted in descending order and not empty, or raises
  \<open>ListParsingException\<close> with no key advertised; and it raises \<open>ListParsingException\<close>
  if and only if no \<open>top-item\<close> container of the page has a first anchor whose \<open>href\<close> is
  a string that bears an identifier.
\<close>

theorem get_page_sorted_or_error:
  assumes "sess (list_get_url K ty num) = Inr page"
  shows "(case get_page K ty (Some sess) num of
            Inr ks \<Rightarrow> ks \<noteq> [] \<and> sorted_wrt (\<lambda>a b. a \<ge> b) ks
                       \<and> mset ks = mset (advertised_keys page)
          | Inl e \<Rightarrow> e = ListParsingException \<and> advertised_keys page = [])
    \<and> (get_page K ty (Some sess) num = Inl ListParsingException
         \<longleftrightarrow> \<not> (\<exists>item \<in> set (find_all_class ''top-item'' page). \<exists>a href.
                  find_name ''a'' item = Some a \<and> tag_get a ''href'' = Some (AttrStr href)
                  \<and> has_key_link href))"
proof -
  let ?nums = "advertised_keys page"
  have loop: "get_page_loop (find_all_class ''top-item'' page) [] = ?nums"
    by (simp add: get_page_loop_eq advertised_keys_def)
  have gp: "get_page K ty (Some sess) num =
      (if ?nums \<noteq> [] then Inr (sorted_reverse ?nums) else Inl ListParsingException)"
    using assms loop by (simp add: get_page_def soup_page_def Let_def)
  have empty: "?nums = [] \<longleftrightarrow> \<not> (\<exists>item \<in> set (find_all_class ''top-item'' page). \<exists>a href.
                  find_name ''a'' item = Some a \<and> tag_get a ''href'' = Some (AttrStr href)
                  \<and> has_key_link href)"
    unfolding advertised_keys_def map_filter_Nil_iff advertised_key_None_iff by blast
  show ?thesis
  proof (cases "?nums = []")
    case True
    with gp empty show ?thesis by simp
  next
    case False
    with gp have r: "get_page K ty (Some sess) num = Inr (sorted_reverse ?nums)" by simp
    from sorted_reverse_props [of ?nums] False
    have "sorted_reverse ?nums \<noteq> []" "sorted_wrt (\<lambda>a b. a \<ge> b) (sorted_reverse ?nums)"
      "mset (sorted_reverse ?nums) = mset ?nums"
      by simp_all
    with r False empty show ?thesis by simp
  qed
qed

lemma listing_session_page_1:
  "listing_session (list_get_url consts_example StillType 1) = Inr listing_page"
  by code_simp

text \<open>
  A page with three containers, the second without a key: the keys 17 and 204 come
  back in descending order.
\<close>

theorem get_page_sorted_or_error_witness:
  "listing_session (list_get_url consts_example StillType 1) = Inr listing_page
   \<and> advertised_keys listing_page = [17, 204]
   \<and> (\<exists>ks. get_page consts_example StillType (Some listing_session) 1 = Inr ks
         \<and> ks \<noteq> [] \<and> sorted_wrt (\<lambda>a b. a \<ge> b) ks \<and> mset ks = mset [17, 204])
   \<and> get_page consts_example StillType (Some listing_session) 1 \<noteq> Inl ListParsingException"
proof -
  have adv: "advertised_keys listing_page = [17, 204]" by code_simp
  have r: "get_page consts_example StillType (Some listing_session) 1 = Inr [204, 17]"
    by code_simp
  from get_page_sorted_or_error [where sess = listing_session and K = consts_example
      and ty = StillType and num = 1 and page = listing_page, OF listing_session_page_1]
  have "case get_page consts_example StillType (Some listing_session) 1 of
            Inr ks \<Rightarrow> ks \<noteq> [] \<and> sorted_wrt (\<lambda>a b. a \<ge> b) ks
                       \<and> mset ks = mset (advertised_keys listing_page)
          | Inl e \<Rightarrow> e = ListParsingException \<and> advertised_keys listing_page = []"
    by blast
  then have "\<exists>ks. get_page consts_example StillType (Some listing_session) 1 = Inr ks
         \<and> ks \<noteq> [] \<and> sorted_wrt (\<lambda>a b. a \<ge> b) ks \<and> mset ks = mset [17, 204]"
    unfolding adv r by simp
  moreover have "get_page consts_example StillType (Some listing_session) 1 \<noteq> Inl ListParsingException"
    using r by simp
  ultimately show ?thesis using listing_session_page_1 adv by blast
qed

text \<open>
  C10: when the \<open>top-item\<close> region of a detail page has at least one anchor and the
  first anchor has no \<open>href\<close>, the still parser does not raise: it returns a \<open>Still\<close>
  whose \<open>url\<close> is \<open>None\<close>, not a string; the card parser raises \<open>ItemParsingException\<close>
  on the same markup.
\<close>

theorem still_parser_accepts_missing_href:
  assumes "find_class ''top-item'' soup = Some top_item"
    and "find_all_name ''a'' top_item = a # links"
    and "tag_get a ''href'' = None"
  shows "create_item_still (Some soup) num = Inr (num, \<lparr>parsed_key = num, parsed_url = None\<rparr>)
    \<and> still_of_parsed \<lparr>parsed_key = num, parsed_url = None\<rparr> = None
    \<and> (sess (still_get_url K num) = Inr soup
         \<longrightarrow> still_get_item K (Some sess) num = Inr (num, \<lparr>parsed_key = num, parsed_url = None\<rparr>))
    \<and> get_item_image_urls (Some soup) = Inl ItemParsingException
    \<and> create_item_card (Some soup) num = Inl ItemParsingException
    \<and> (sess' (card_get_url K num) = Inr soup
         \<longrightarrow> card_get_item K (Some sess') num = Inl ItemParsingException)"
proof -
  have s: "create_item_still (Some soup) num = Inr (num, \<lparr>parsed_key = num, parsed_url = None\<rparr>)"
    using assms by (simp add: create_item_still_def get_item_image_url_def)
  have u: "get_item_image_urls (Some soup) = Inl ItemParsingException"
    using assms by (simp add: get_item_image_urls_def)
  then have c: "create_item_card (Some soup) num = Inl ItemParsingException"
    by (simp add: create_item_card_def)
  show ?thesis
    using s u c
    by (simp add: still_of_parsed_def still_get_item_def card_get_item_def soup_page_def)
qed

text \<open>
  A detail page whose first anchor has a \<open>name\<close> and no \<open>href\<close>.
\<close>

theorem still_parser_accepts_missing_href_witness:
  "find_class ''top-item'' detail_page_no_href
     = Some (Tag ''div'' [(''class'', AttrList [''top-item''])]
          [Tag ''a'' [(''name'', AttrStr ''art'')] [],
           Tag ''a'' [(''href'', AttrStr ''//i.idol.st/u/still/2x/17Still.png'')] []])
   \<and> find_all_name ''a'' (Tag ''div'' [(''class'', AttrList [''top-item''])]
          [Tag ''a'' [(''name'', AttrStr ''art'')] [],
           Tag ''a'' [(''href'', AttrStr ''//i.idol.st/u/still/2x/17Still.png'')] []])
     = [Tag ''a'' [(''name'', AttrStr ''art'')] [],
        Tag ''a'' [(''href'', AttrStr ''//i.idol.st/u/still/2x/17Still.png'')] []]
   \<and> tag_get (Tag ''a'' [(''name'', AttrStr ''art'')] []) ''href'' = None
   \<and> create_item_still (Some detail_page_no_href) 17
     = Inr (17, \<lparr>parsed_key = 17, parsed_url = None\<rparr>)
   \<and> still_of_parsed \<lparr>parsed_key = 17, parsed_url = None\<rparr> = None
   \<and> create_item_card (Some detail_page_no_href) 17 = Inl ItemParsingException"
proof -
  let ?top = "Tag ''div'' [(''class'', AttrList [''top-item''])]
          [Tag ''a'' [(''name'', AttrStr ''art'')] [],
           Tag ''a'' [(''href'', AttrStr ''//i.idol.st/u/still/2x/17Still.png'')] []]"
  have a: "find_class ''top-item'' detail_page_no_href = Some ?top" by code_simp
  have b: "find_all_name ''a'' ?top
     = Tag ''a'' [(''name'', AttrStr ''art'')] []
       # [Tag ''a'' [(''href'', AttrStr ''//i.idol.st/u/still/2x/17Still.png'')] []]"
    by code_simp
  have c: "tag_get (Tag ''a'' [(''name'', AttrStr ''art'')] []) ''href'' = None" by code_simp
  from still_parser_accepts_missing_href [OF a b c, of 17 "\<lambda>u. Inl NoHTTPSessionException"
      consts_example "\<lambda>u. Inl NoHTTPSessionException"] a b c
  show ?thesis by blast
qed

end
